theory Spec2Isabelle
  imports Main
begin

section \<open>Python strings\<close>

text \<open>
  Python \<^verbatim>\<open>str\<close> values are modelled as \<^typ>\<open>string\<close>: a character is a code
  point below 256. On these, \<^verbatim>\<open>str.lower\<close> adds 32 to the code points of the
  uppercase letters, which are 65..90 (A..Z) and 192..222 without 215 (the multiplication
  sign), and leaves every other character alone; \<^verbatim>\<open>str.strip\<close> removes from both
  ends the characters for which \<^verbatim>\<open>str.isspace\<close> holds, which are 9..13, 28..32,
  133 and 160.
\<close>

definition lower_char :: "char \<Rightarrow> char" where
  "lower_char c =
     (let n = (of_char c :: nat)
      in if (65 \<le> n \<and> n \<le> 90) \<or> (192 \<le> n \<and> n \<le> 222 \<and> n \<noteq> 215)
         then char_of (n + 32)
         else c)"

definition lower :: "string \<Rightarrow> string" where
  "lower s = map lower_char s"

definition is_space :: "char \<Rightarrow> bool" where
  "is_space c = (c \<in> set [CHR '' '', CHR 0x09, CHR 0x0A, CHR 0x0B, CHR 0x0C, CHR 0x0D,
                            CHR 0x1C, CHR 0x1D, CHR 0x1E, CHR 0x1F, CHR 0x85, CHR 0xA0])"

definition strip :: "string \<Rightarrow> string" where
  "strip s = rev (dropWhile is_space (rev (dropWhile is_space s)))"

text \<open>\<^verbatim>\<open>s.startswith(p)\<close> and \<^verbatim>\<open>s.endswith(p)\<close>.\<close>

fun startswith :: "string \<Rightarrow> string \<Rightarrow> bool" where
  "startswith s [] = True"
| "startswith [] (p # ps) = False"
| "startswith (c # cs) (p # ps) = (c = p \<and> startswith cs ps)"

definition endswith :: "string \<Rightarrow> string \<Rightarrow> bool" where
  "endswith s p = startswith (rev s) (rev p)"

text \<open>\<^verbatim>\<open>sub in s\<close> on strings: \<open>sub\<close> occurs in \<open>s\<close> as a contiguous run.\<close>

fun py_in :: "string \<Rightarrow> string \<Rightarrow> bool" where
  "py_in sub [] = (sub = [])"
| "py_in sub (c # cs) = (startswith (c # cs) sub \<or> py_in sub cs)"

text \<open>\<^verbatim>\<open>str(n)\<close> for a non-negative integer: its decimal digits.\<close>

definition digit_char :: "nat \<Rightarrow> char" where
  "digit_char d = ''0123456789'' ! d"

function str_nat :: "nat \<Rightarrow> string" where
  "str_nat n = (if n < 10 then [digit_char n] else str_nat (n div 10) @ [digit_char (n mod 10)])"
  by pat_completeness auto
termination
  by (relation "measure id") auto

declare str_nat.simps [simp del]

section \<open>Python dictionaries\<close>

text \<open>
  A \<^verbatim>\<open>dict\<close> keeps its keys in insertion order, and the order decides the numeric
  suffix of a renamed file, so a dictionary is an association list with distinct keys.
  Assigning to a present key keeps its position, \<^verbatim>\<open>del d[k]\<close> raises
  \<^verbatim>\<open>KeyError\<close> on an absent key.
\<close>

datatype py_error = KeyError | SystemExit | OSError

type_synonym ('k, 'v) dict = "('k \<times> 'v) list"

definition dict_keys :: "('k, 'v) dict \<Rightarrow> 'k list" where
  "dict_keys d = map fst d"

definition dict_values :: "('k, 'v) dict \<Rightarrow> 'v list" where
  "dict_values d = map snd d"

fun dict_set :: "('k, 'v) dict \<Rightarrow> 'k \<Rightarrow> 'v \<Rightarrow> ('k, 'v) dict" where
  "dict_set [] k v = [(k, v)]"
| "dict_set (p # ps) k v = (if fst p = k then (k, v) # ps else p # dict_set ps k v)"

definition dict_del :: "('k, 'v) dict \<Rightarrow> 'k \<Rightarrow> py_error + ('k, 'v) dict" where
  "dict_del d k =
     (if k \<in> set (dict_keys d) then Inr (filter (\<lambda>p. fst p \<noteq> k) d) else Inl KeyError)"

section \<open>Finding the files of a row\<close>

text \<open>
  The inner loop of \<^verbatim>\<open>process_sheet\<close> (lines 313-317): \<^verbatim>\<open>tutti_presenti\<close>
  becomes false at the first value that is non-empty and does not occur in the lowercase
  file name.
\<close>

fun tutti_presenti :: "string list \<Rightarrow> string \<Rightarrow> bool" where
  "tutti_presenti [] nome_file_lower = True"
| "tutti_presenti (valore # rest) nome_file_lower =
     (if valore \<noteq> [] \<and> \<not> py_in valore nome_file_lower then False
      else tutti_presenti rest nome_file_lower)"

text \<open>
  The loop over \<^verbatim>\<open>list(indice_file.items())\<close> (lines 307-320): files already in
  \<^verbatim>\<open>file_rinominati\<close> are passed over, the others are appended when all values
  are present.
\<close>

fun file_corrispondenti :: "(string, string) dict \<Rightarrow> string set \<Rightarrow> string list \<Rightarrow> string list" where
  "file_corrispondenti [] file_rinominati valori = []"
| "file_corrispondenti ((nome_file, nome_file_lower) # rest) file_rinominati valori =
     (if nome_file \<in> file_rinominati then file_corrispondenti rest file_rinominati valori
      else if tutti_presenti valori nome_file_lower
           then nome_file # file_corrispondenti rest file_rinominati valori
      else file_corrispondenti rest file_rinominati valori)"

section \<open>Paths\<close>

text \<open>
  \<^verbatim>\<open>os.path.splitext\<close> and \<^verbatim>\<open>os.path.join\<close> as \<^verbatim>\<open>posixpath\<close> defines them.
  \<^verbatim>\<open>rfind\<close> is the index of the last occurrence, or -1. The extension starts at the
  last dot, provided the dot comes after the last separator and some character other than
  a dot stands between the separator and that dot.
\<close>

definition rfind :: "string \<Rightarrow> char \<Rightarrow> int" where
  "rfind s c =
     (if c \<in> set s then int (length s) - 1 - int (length (takeWhile (\<lambda>x. x \<noteq> c) (rev s)))
      else - 1)"

function non_dot_before :: "string \<Rightarrow> nat \<Rightarrow> nat \<Rightarrow> bool" where
  "non_dot_before p filenameIndex dotIndex =
     (if filenameIndex < dotIndex
      then (if p ! filenameIndex \<noteq> CHR ''.'' then True
            else non_dot_before p (Suc filenameIndex) dotIndex)
      else False)"
  by pat_completeness auto
termination
  by (relation "measure (\<lambda>(p, filenameIndex, dotIndex). dotIndex - filenameIndex)") auto

declare non_dot_before.simps [simp del]

definition splitext :: "string \<Rightarrow> string \<times> string" where
  "splitext p =
     (let sepIndex = rfind p CHR ''/'';
          dotIndex = rfind p CHR ''.''
      in if dotIndex > sepIndex \<and> non_dot_before p (nat (sepIndex + 1)) (nat dotIndex)
         then (take (nat dotIndex) p, drop (nat dotIndex) p)
         else (p, []))"

definition os_path_join :: "string \<Rightarrow> string \<Rightarrow> string" where
  "os_path_join a b =
     (if startswith b ''/'' then b
      else if a = [] \<or> endswith a ''/'' then a @ b
      else a @ ''/'' @ b)"

section \<open>The platform, the catalog and the run state\<close>

text \<open>
  The file system and the clock are outside the program. \<open>os_rename w src dst\<close> is the
  call \<^verbatim>\<open>os.rename(src, dst)\<close> in the world \<open>w\<close>: it answers whether the call returned
  (\<open>True\<close>) or raised (\<open>False\<close>), and the world afterwards. \<open>strftime_now w fmt\<close> is
  \<^verbatim>\<open>datetime.now().strftime(fmt)\<close>. \<open>report_write w path\<close> answers whether opening
  the report file \<open>path\<close> for writing and writing it returns (\<open>True\<close>) or raises
  (\<open>False\<close>). Every theorem below holds for every platform.
\<close>

record 'w platform =
  os_rename :: "'w \<Rightarrow> string \<Rightarrow> string \<Rightarrow> bool \<times> 'w"
  strftime_now :: "'w \<Rightarrow> string \<Rightarrow> string"
  report_write :: "'w \<Rightarrow> string \<Rightarrow> bool"

text \<open>
  A sheet is read with \<^verbatim>\<open>dtype=str\<close>: a cell is a text or NaN. A row (a pandas
  Series) maps the column labels of the sheet to cells.
\<close>

datatype cell = NaN | Str string

type_synonym riga = "string \<rightharpoonup> cell"

record dataframe =
  df_columns :: "string list"
  df_rows :: "riga list"

datatype pyval = PInt int | PStr string

type_synonym info_riga = "(string, pyval) dict"

text \<open>
  The objects that \<^verbatim>\<open>rinomina_foto_in_batch\<close> creates and every call mutates, and
  the world.
\<close>

record 'w run_state =
  indice_file :: "(string, string) dict"
  file_rinominati :: "string set"
  ean_non_trovati :: "info_riga list"
  codeno :: "string list"
  codesi :: "string list"
  world :: 'w

text \<open>
  One call of \<^verbatim>\<open>os.rename\<close>, as a rename loop leaves it behind: the file name, the
  new name, and whether the call returned.
\<close>

type_synonym attempt = "string \<times> string \<times> bool"

definition att_old :: "attempt \<Rightarrow> string" where
  "att_old a = fst a"

definition att_new :: "attempt \<Rightarrow> string" where
  "att_new a = fst (snd a)"

definition att_ok :: "attempt \<Rightarrow> bool" where
  "att_ok a = snd (snd a)"

definition renamed_by :: "attempt list \<Rightarrow> string list" where
  "renamed_by t = map att_old (filter att_ok t)"

definition EAN_COLUMN :: string where
  "EAN_COLUMN = ''EAN''"

definition FILE_EXTENSION :: string where
  "FILE_EXTENSION = ''.jpg''"

definition BRAND_COLUMN_MAPPINGS :: "(string, string list) dict" where
  "BRAND_COLUMN_MAPPINGS =
     [(''guess'', [''Model'', ''Part'', ''Color'']),
      (''liujo'', [''Modello'', ''Parte'', ''Colore'']),
      (''furla'', [''Modello'', ''Parte'', ''Colore'', ''TipoVariante'']),
      (''alviero'', [''Linea'', ''Modello'', ''Tessuto'', ''Colore'']),
      (''brand'', [''Campo1'', ''Campo2''])]"

section \<open>rename_files\<close>

text \<open>
  The body of the loop of \<^verbatim>\<open>rename_files\<close> (lines 187-199) for the file
  \<open>vecchio_nome\<close> at position \<open>i\<close>. When \<^verbatim>\<open>os.rename\<close> raises, the handler prints
  and nothing else changes. When it returns, the name enters \<^verbatim>\<open>file_rinominati\<close>,
  the counter grows, and \<^verbatim>\<open>del indice_file[vecchio_nome]\<close> runs inside the same
  \<^verbatim>\<open>try\<close>: its \<^verbatim>\<open>KeyError\<close> is caught by the same handler, after the counter has
  grown.
\<close>

definition rename_one ::
  "'w platform \<Rightarrow> string \<Rightarrow> string \<Rightarrow> nat \<Rightarrow> string \<Rightarrow> nat \<times> 'w run_state
     \<Rightarrow> (nat \<times> 'w run_state) \<times> attempt" where
  "rename_one pf ean photo_folder i vecchio_nome acc =
     (case acc of (conteggio_rinominati, st) \<Rightarrow>
        let estensione = snd (splitext vecchio_nome);
            nuovo_nome = ean @ ''-'' @ str_nat i @ estensione;
            vecchio_percorso = os_path_join photo_folder vecchio_nome;
            nuovo_percorso = os_path_join photo_folder nuovo_nome;
            r = os_rename pf (world st) vecchio_percorso nuovo_percorso
        in if fst r then
             let st1 = st\<lparr>world := snd r,
                          file_rinominati := insert vecchio_nome (file_rinominati st)\<rparr>
             in (case dict_del (indice_file st1) vecchio_nome of
                   Inl e \<Rightarrow> ((conteggio_rinominati + 1, st1), (vecchio_nome, nuovo_nome, True))
                 | Inr d \<Rightarrow> ((conteggio_rinominati + 1, st1\<lparr>indice_file := d\<rparr>),
                             (vecchio_nome, nuovo_nome, True)))
           else ((conteggio_rinominati, st\<lparr>world := snd r\<rparr>), (vecchio_nome, nuovo_nome, False)))"

fun rename_loop ::
  "'w platform \<Rightarrow> string \<Rightarrow> string \<Rightarrow> nat \<Rightarrow> string list \<Rightarrow> nat \<times> 'w run_state
     \<Rightarrow> (nat \<times> 'w run_state) \<times> attempt list" where
  "rename_loop pf ean photo_folder i [] acc = (acc, [])"
| "rename_loop pf ean photo_folder i (vecchio_nome # files) acc =
     (case rename_one pf ean photo_folder i vecchio_nome acc of
        (acc1, a) \<Rightarrow>
          (case rename_loop pf ean photo_folder (Suc i) files acc1 of
             (acc2, t) \<Rightarrow> (acc2, a # t)))"

text \<open>
  \<^verbatim>\<open>rename_files\<close> returns \<^verbatim>\<open>conteggio_rinominati\<close>; the model returns it with
  the state it leaves and the calls of \<^verbatim>\<open>os.rename\<close> it made, in order.
\<close>

definition rename_files ::
  "'w platform \<Rightarrow> string list \<Rightarrow> string \<Rightarrow> string \<Rightarrow> 'w run_state
     \<Rightarrow> (nat \<times> 'w run_state) \<times> attempt list" where
  "rename_files pf files ean photo_folder st = rename_loop pf ean photo_folder 0 files (0, st)"

section \<open>process_sheet\<close>

text \<open>Lines 295-298: the values of the row, lowercased and stripped, NaN cells left out.\<close>

fun extract_valori :: "string list \<Rightarrow> riga \<Rightarrow> (string, string) dict \<Rightarrow> (string, string) dict" where
  "extract_valori [] riga valori = valori"
| "extract_valori (colonna # rest) riga valori =
     (case riga colonna of
        Some (Str s) \<Rightarrow> extract_valori rest riga (dict_set valori colonna (strip (lower s)))
      | _ \<Rightarrow> extract_valori rest riga valori)"

text \<open>Lines 331-333: the cells of the row as they are, NaN cells left out.\<close>

fun add_columns :: "string list \<Rightarrow> riga \<Rightarrow> info_riga \<Rightarrow> info_riga" where
  "add_columns [] riga info = info"
| "add_columns (colonna # rest) riga info =
     (case riga colonna of
        Some (Str s) \<Rightarrow> add_columns rest riga (dict_set info colonna (PStr s))
      | _ \<Rightarrow> add_columns rest riga info)"

text \<open>Lines 301-304: the EAN of the row, or \<open>None\<close> where the loop says \<^verbatim>\<open>continue\<close>.\<close>

definition ean_of :: "riga \<Rightarrow> string option" where
  "ean_of riga = (case riga EAN_COLUMN of Some (Str s) \<Rightarrow> Some (strip s) | _ \<Rightarrow> None)"

text \<open>Lines 307-320 for one row in one state.\<close>

definition find_files :: "string list \<Rightarrow> riga \<Rightarrow> 'w run_state \<Rightarrow> string list" where
  "find_files columns_to_match riga st =
     file_corrispondenti (indice_file st) (file_rinominati st)
       (dict_values (extract_valori columns_to_match riga []))"

text \<open>
  The body of the loop over the rows (lines 290-345) for the row \<open>riga\<close> with index \<open>idx\<close>.
  It returns the counter \<^verbatim>\<open>renamed\<close>, the state, and the calls of \<^verbatim>\<open>os.rename\<close>
  made for this row.
\<close>

definition process_row ::
  "'w platform \<Rightarrow> string list \<Rightarrow> string \<Rightarrow> nat \<Rightarrow> riga \<Rightarrow> nat \<times> 'w run_state
     \<Rightarrow> (nat \<times> 'w run_state) \<times> attempt list" where
  "process_row pf columns_to_match photo_folder idx riga acc =
     (case acc of (renamed, st) \<Rightarrow>
        (case ean_of riga of
           None \<Rightarrow> (acc, [])
         | Some ean \<Rightarrow>
             let files = find_files columns_to_match riga st
             in if files = [] then
                  let info = add_columns columns_to_match riga
                               [(''riga_excel'', PInt (int idx + 1)),
                                (''ean'', PStr ean),
                                (''data'', PStr (strftime_now pf (world st) ''%Y-%m-%d %H:%M:%S''))]
                  in ((renamed, st\<lparr>ean_non_trovati := ean_non_trovati st @ [info],
                                    codeno := codeno st @ [ean]\<rparr>), [])
                else
                  (case rename_files pf files ean photo_folder (st\<lparr>codesi := codesi st @ [ean]\<rparr>) of
                     ((n, st1), t) \<Rightarrow> ((renamed + n, st1), t))))"

fun process_rows ::
  "'w platform \<Rightarrow> string list \<Rightarrow> string \<Rightarrow> nat \<Rightarrow> riga list \<Rightarrow> nat \<times> 'w run_state
     \<Rightarrow> (nat \<times> 'w run_state) \<times> attempt list list" where
  "process_rows pf columns_to_match photo_folder idx [] acc = (acc, [])"
| "process_rows pf columns_to_match photo_folder idx (riga # rest) acc =
     (case process_row pf columns_to_match photo_folder idx riga acc of
        (acc1, t) \<Rightarrow>
          (case process_rows pf columns_to_match photo_folder (Suc idx) rest acc1 of
             (acc2, ts) \<Rightarrow> (acc2, t # ts)))"

text \<open>
  \<^verbatim>\<open>process_sheet\<close> on the dataframe that \<^verbatim>\<open>pd.read_excel\<close> returned: the two
  column checks end the program with \<^verbatim>\<open>sys.exit(1)\<close>, then the rows are taken in the
  order of the dataframe, numbered from 0.
\<close>

definition process_sheet ::
  "'w platform \<Rightarrow> dataframe \<Rightarrow> string list \<Rightarrow> string \<Rightarrow> 'w run_state
     \<Rightarrow> py_error + ((nat \<times> 'w run_state) \<times> attempt list list)" where
  "process_sheet pf df columns_to_match photo_folder st =
     (if \<not> list_all (\<lambda>colonna. colonna \<in> set (df_columns df)) columns_to_match
      then Inl SystemExit
      else if EAN_COLUMN \<notin> set (df_columns df) then Inl SystemExit
      else Inr (process_rows pf columns_to_match photo_folder 0 (df_rows df) (0, st)))"

section \<open>The run\<close>

text \<open>
  How the loop over the sheets ends: all sheets done, an exception of the workbook reader
  caught by \<^verbatim>\<open>rinomina_foto_in_batch\<close> (which then returns, lines 411-416), or
  \<^verbatim>\<open>sys.exit(1)\<close> inside \<^verbatim>\<open>process_sheet\<close>. A sheet that the reader could not
  read is \<open>None\<close>.
\<close>

datatype ending = Finished | NoPhotoFolder | ExcelFailed | Raised py_error

fun process_sheets ::
  "'w platform \<Rightarrow> string list \<Rightarrow> string \<Rightarrow> dataframe option list \<Rightarrow> nat \<times> 'w run_state
     \<Rightarrow> ending \<times> (nat \<times> 'w run_state) \<times> attempt list list" where
  "process_sheets pf columns_to_match photo_folder [] acc = (Finished, acc, [])"
| "process_sheets pf columns_to_match photo_folder (None # rest) acc = (ExcelFailed, acc, [])"
| "process_sheets pf columns_to_match photo_folder (Some df # rest) acc =
     (case acc of (conteggio_rinominati, st) \<Rightarrow>
        (case process_sheet pf df columns_to_match photo_folder st of
           Inl e \<Rightarrow> (Raised e, acc, [])
         | Inr ((n, st1), ts) \<Rightarrow>
             (case process_sheets pf columns_to_match photo_folder rest
                     (conteggio_rinominati + n, st1) of
                (e, acc2, ts2) \<Rightarrow> (e, acc2, ts @ ts2))))"

record report =
  report_file :: string
  fieldnames :: "string list"
  report_rows :: "info_riga list"

text \<open>
  \<^verbatim>\<open>make_report\<close>: the file is written when \<^verbatim>\<open>ean_non_trovati\<close> is non-empty; its
  content is what \<^verbatim>\<open>csv.DictWriter\<close> is given. Nothing catches an exception of
  \<^verbatim>\<open>open\<close> or of the writer: it leaves \<^verbatim>\<open>make_report\<close> and the run, and no
  report is written.
\<close>

definition make_report ::
  "'w platform \<Rightarrow> 'w \<Rightarrow> nat \<Rightarrow> info_riga list \<Rightarrow> string \<Rightarrow> string \<Rightarrow> string list
     \<Rightarrow> py_error + report option" where
  "make_report pf w conteggio_rinominati non_trovati reports_folder brand_name columns_to_match =
     (let datetime_str = strftime_now pf w ''%Y-%m-%d_%H-%M-%S''
      in if non_trovati \<noteq> [] then
           let path = reports_folder @ ''/report_ean_non_trovati_'' @ brand_name
                        @ ''_'' @ datetime_str @ ''.csv''
           in if report_write pf w path then
                Inr (Some \<lparr>report_file = path,
                           fieldnames = [''riga_excel'', ''ean'', ''data''] @ columns_to_match,
                           report_rows = non_trovati\<rparr>)
              else Inl OSError
         else Inr None)"

definition setup_paths :: "string \<Rightarrow> string \<Rightarrow> string \<times> string \<times> string" where
  "setup_paths season brand_name =
     (let base_dir = ''./'' @ season
      in (base_dir @ ''/photoes/'' @ brand_name @ ''/'',
          base_dir @ ''/excels/'' @ brand_name @ ''.xlsx'',
          base_dir @ ''/reports''))"

text \<open>Lines 387 and 391: the index of the files whose lowercase name ends in \<^verbatim>\<open>.jpg\<close>.\<close>

fun build_index :: "string list \<Rightarrow> (string, string) dict \<Rightarrow> (string, string) dict" where
  "build_index [] d = d"
| "build_index (file # rest) d = build_index rest (dict_set d file (lower file))"

definition file_jpg_of :: "string list \<Rightarrow> string list" where
  "file_jpg_of tutti_file = filter (\<lambda>file. endswith (lower file) FILE_EXTENSION) tutti_file"

record 'w run_result =
  run_ending :: ending
  run_conteggio :: nat
  run_state :: "'w run_state"
  run_trace :: "attempt list list"
  run_report :: "report option"

definition initial_state :: "(string, string) dict \<Rightarrow> 'w \<Rightarrow> 'w run_state" where
  "initial_state d w =
     \<lparr>indice_file = d, file_rinominati = {}, ean_non_trovati = [], codeno = [], codesi = [],
      world = w\<rparr>"

text \<open>
  \<^verbatim>\<open>rinomina_foto_in_batch\<close>. \<open>listing\<close> is \<^verbatim>\<open>os.listdir(photo_folder)\<close>, or
  \<open>None\<close> when the folder is not a directory; \<open>sheets\<close> are the sheets of the workbook
  in \<^verbatim>\<open>excel.sheet_names\<close> order, or \<open>None\<close> when \<^verbatim>\<open>pd.ExcelFile\<close> raises. The
  creation of the reports folder and the optimisation of large images neither read nor
  write the index, the catalog or the counters, and are left out. The result has one list
  of \<^verbatim>\<open>os.rename\<close> calls for every row processed, over all sheets, in order.
\<close>

definition rinomina_foto_in_batch ::
  "'w platform \<Rightarrow> string \<Rightarrow> string \<Rightarrow> string list option \<Rightarrow> dataframe option list option \<Rightarrow> 'w
     \<Rightarrow> 'w run_result" where
  "rinomina_foto_in_batch pf season brand_name listing sheets w =
     (case setup_paths season brand_name of (photo_folder, excel_file, reports_folder) \<Rightarrow>
        (case map_of BRAND_COLUMN_MAPPINGS brand_name of
           None \<Rightarrow> \<lparr>run_ending = Raised KeyError, run_conteggio = 0,
                     run_state = initial_state [] w, run_trace = [], run_report = None\<rparr>
         | Some columns_to_match \<Rightarrow>
             (case listing of
                None \<Rightarrow> \<lparr>run_ending = NoPhotoFolder, run_conteggio = 0,
                          run_state = initial_state [] w, run_trace = [], run_report = None\<rparr>
              | Some tutti_file \<Rightarrow>
                  let st0 = initial_state (build_index (file_jpg_of tutti_file) []) w
                  in (case sheets of
                        None \<Rightarrow> \<lparr>run_ending = ExcelFailed, run_conteggio = 0,
                                  run_state = st0, run_trace = [], run_report = None\<rparr>
                      | Some dfs \<Rightarrow>
                          (case process_sheets pf columns_to_match photo_folder dfs (0, st0) of
                             (e, (conteggio_rinominati, st), ts) \<Rightarrow>
                               if e = Finished then
                                 (case make_report pf (world st) conteggio_rinominati
                                         (ean_non_trovati st) reports_folder brand_name
                                         columns_to_match of
                                    Inl err \<Rightarrow>
                                      \<lparr>run_ending = Raised err,
                                       run_conteggio = conteggio_rinominati,
                                       run_state = st, run_trace = ts, run_report = None\<rparr>
                                  | Inr written \<Rightarrow>
                                      \<lparr>run_ending = Finished,
                                       run_conteggio = conteggio_rinominati,
                                       run_state = st, run_trace = ts, run_report = written\<rparr>)
                               else
                                 \<lparr>run_ending = e, run_conteggio = conteggio_rinominati,
                                  run_state = st, run_trace = ts, run_report = None\<rparr>)))))"

section \<open>Platforms and inputs of the examples\<close>

text \<open>
  Three file systems over a world without state: one where every \<^verbatim>\<open>os.rename\<close>
  returns, one where every call raises, and one where the call raises for one source path
  only. The clock of all three is stopped, and the report can be written in all three.
\<close>

definition stopped_clock :: "unit \<Rightarrow> string \<Rightarrow> string" where
  "stopped_clock w fmt =
     (if fmt = ''%Y-%m-%d_%H-%M-%S'' then ''2025-01-01_00-00-00'' else ''2025-01-01 00:00:00'')"

definition renames_all :: "unit platform" where
  "renames_all =
     \<lparr>os_rename = (\<lambda>w src dst. (True, w)), strftime_now = stopped_clock,
      report_write = (\<lambda>w path. True)\<rparr>"

definition renames_none :: "unit platform" where
  "renames_none =
     \<lparr>os_rename = (\<lambda>w src dst. (False, w)), strftime_now = stopped_clock,
      report_write = (\<lambda>w path. True)\<rparr>"

definition renames_except :: "string \<Rightarrow> unit platform" where
  "renames_except locked =
     \<lparr>os_rename = (\<lambda>w src dst. (src \<noteq> locked, w)), strftime_now = stopped_clock,
      report_write = (\<lambda>w path. True)\<rparr>"

text \<open>
  Two rows of a sheet of the family \<^verbatim>\<open>brand\<close> whose only attribute value is
  \<^verbatim>\<open>red\<close>, a row whose EAN cell holds two spaces, and a row with untidy cells.
\<close>

definition row_a :: riga where
  "row_a = [''EAN'' \<mapsto> Str ''1111111111111'', ''Campo1'' \<mapsto> Str ''red'', ''Campo2'' \<mapsto> NaN]"

definition row_b :: riga where
  "row_b = [''EAN'' \<mapsto> Str ''2222222222222'', ''Campo1'' \<mapsto> Str ''red'', ''Campo2'' \<mapsto> NaN]"

definition row_blank_ean :: riga where
  "row_blank_ean = [''EAN'' \<mapsto> Str ''  '', ''Campo1'' \<mapsto> NaN, ''Campo2'' \<mapsto> NaN]"

definition row_untidy :: riga where
  "row_untidy = [''EAN'' \<mapsto> Str ''3333333333333'', ''Campo1'' \<mapsto> Str '' Sky BLUE '', ''Campo2'' \<mapsto> NaN]"

definition red_shoes :: "unit run_state" where
  "red_shoes = initial_state (build_index [''red-shoe.jpg'', ''red-shoe-2.jpg''] []) ()"

definition sheet_ab :: dataframe where
  "sheet_ab = \<lparr>df_columns = [''Campo1'', ''Campo2'', ''EAN''], df_rows = [row_a, row_b]\<rparr>"

definition sheet_ba :: dataframe where
  "sheet_ba = \<lparr>df_columns = [''Campo1'', ''Campo2'', ''EAN''], df_rows = [row_b, row_a]\<rparr>"

definition sheet_mixed :: dataframe where
  "sheet_mixed = \<lparr>df_columns = [''Campo1'', ''Campo2'', ''EAN''],
                  df_rows = [row_a, row_untidy, row_b]\<rparr>"

section \<open>The rows of a run and the states they meet\<close>

text \<open>
  For the statements about a whole run: the rows in the order the run takes them, each
  with its index in its sheet and the state in which its files are looked for.
\<close>

type_synonym 'w moment = "nat \<times> riga \<times> 'w run_state"

fun row_moments ::
  "'w platform \<Rightarrow> string list \<Rightarrow> string \<Rightarrow> nat \<Rightarrow> riga list \<Rightarrow> 'w run_state
     \<Rightarrow> 'w moment list" where
  "row_moments pf columns_to_match photo_folder idx [] st = []"
| "row_moments pf columns_to_match photo_folder idx (riga # rest) st =
     (idx, riga, st) #
       row_moments pf columns_to_match photo_folder (Suc idx) rest
         (snd (fst (process_row pf columns_to_match photo_folder idx riga (0, st))))"

fun sheet_moments ::
  "'w platform \<Rightarrow> string list \<Rightarrow> string \<Rightarrow> dataframe option list \<Rightarrow> 'w run_state
     \<Rightarrow> 'w moment list" where
  "sheet_moments pf columns_to_match photo_folder [] st = []"
| "sheet_moments pf columns_to_match photo_folder (None # rest) st = []"
| "sheet_moments pf columns_to_match photo_folder (Some df # rest) st =
     (case process_sheet pf df columns_to_match photo_folder st of
        Inl e \<Rightarrow> []
      | Inr (acc, ts) \<Rightarrow>
          row_moments pf columns_to_match photo_folder 0 (df_rows df) st
            @ sheet_moments pf columns_to_match photo_folder rest (snd acc))"

text \<open>
  A row counts as unmatched at its moment when it has an EAN (its EAN cell is not NaN)
  and no file of the index, as it is then, matches it.
\<close>

definition no_match_at :: "string list \<Rightarrow> 'w moment \<Rightarrow> bool" where
  "no_match_at columns_to_match m =
     (case m of (idx, riga, st) \<Rightarrow>
        ean_of riga \<noteq> None \<and> find_files columns_to_match riga st = [])"

text \<open>Lines 325-333: the record of a row that is unmatched at its moment.\<close>

definition info_riga_at :: "'w platform \<Rightarrow> string list \<Rightarrow> 'w moment \<Rightarrow> info_riga" where
  "info_riga_at pf columns_to_match m =
     (case m of (idx, riga, st) \<Rightarrow>
        add_columns columns_to_match riga
          [(''riga_excel'', PInt (int idx + 1)),
           (''ean'', PStr (case ean_of riga of None \<Rightarrow> [] | Some ean \<Rightarrow> ean)),
           (''data'', PStr (strftime_now pf (world st) ''%Y-%m-%d %H:%M:%S''))])"

text \<open>
  The files a sequence of rows may still take: every row attempts only files of the set
  of names it is given, and leaves to the rows after it that set without the files it
  renamed.
\<close>

definition all_renamed :: "attempt list list \<Rightarrow> string list" where
  "all_renamed ts = concat (map renamed_by ts)"

fun consumes :: "string set \<Rightarrow> attempt list list \<Rightarrow> bool" where
  "consumes K [] = True"
| "consumes K (t # ts) = (set (map att_old t) \<subseteq> K \<and> consumes (K - set (renamed_by t)) ts)"

text \<open>
  The rows of a run that are unmatched at their moment, in order: the run looks for their
  files in the index built from the listing, with the columns of the family and the photo
  folder of the season.
\<close>

definition run_unmatched ::
  "'w platform \<Rightarrow> string \<Rightarrow> string \<Rightarrow> string list \<Rightarrow> dataframe option list \<Rightarrow> 'w
     \<Rightarrow> 'w moment list" where
  "run_unmatched pf season brand_name tutti_file dfs w =
     (case map_of BRAND_COLUMN_MAPPINGS brand_name of
        None \<Rightarrow> []
      | Some columns_to_match \<Rightarrow>
          filter (no_match_at columns_to_match)
            (sheet_moments pf columns_to_match (fst (setup_paths season brand_name)) dfs
               (initial_state (build_index (file_jpg_of tutti_file) []) w)))"

text \<open>
  The words of the specification on the unmatched rows: a row is valid when its EAN is
  not blank after trimming, and the unmatched rows of a run are the valid rows with no
  matching file at their moment. Next to them, a sheet whose only row has an EAN cell of
  two spaces and the attribute value \<^verbatim>\<open>blue\<close>.
\<close>

definition spec_valid_row :: "riga \<Rightarrow> bool" where
  "spec_valid_row riga =
     (case riga EAN_COLUMN of Some (Str s) \<Rightarrow> strip s \<noteq> [] | _ \<Rightarrow> False)"

definition spec_run_unmatched ::
  "'w platform \<Rightarrow> string \<Rightarrow> string \<Rightarrow> string list \<Rightarrow> dataframe option list \<Rightarrow> 'w
     \<Rightarrow> 'w moment list" where
  "spec_run_unmatched pf season brand_name tutti_file dfs w =
     (case map_of BRAND_COLUMN_MAPPINGS brand_name of
        None \<Rightarrow> []
      | Some columns_to_match \<Rightarrow>
          filter (\<lambda>m. case m of (idx, riga, st) \<Rightarrow>
                        spec_valid_row riga \<and> find_files columns_to_match riga st = [])
            (sheet_moments pf columns_to_match (fst (setup_paths season brand_name)) dfs
               (initial_state (build_index (file_jpg_of tutti_file) []) w)))"

definition row_blank_ean_blue :: riga where
  "row_blank_ean_blue = [''EAN'' \<mapsto> Str ''  '', ''Campo1'' \<mapsto> Str ''blue'', ''Campo2'' \<mapsto> NaN]"

definition sheet_blank_ean :: dataframe where
  "sheet_blank_ean = \<lparr>df_columns = [''Campo1'', ''Campo2'', ''EAN''],
                      df_rows = [row_blank_ean_blue]\<rparr>"

section \<open>Strings and dictionaries: basic facts\<close>

lemma startswith_iff: "startswith s p \<longleftrightarrow> (\<exists>t. s = p @ t)"
  by (induction s p rule: startswith.induct) auto

lemma py_in_iff: "py_in sub s \<longleftrightarrow> (\<exists>p t. s = p @ sub @ t)"
proof (induction s)
  case Nil
  then show ?case by auto
next
  case (Cons c cs)
  show ?case
  proof
    assume "py_in sub (c # cs)"
    then consider "startswith (c # cs) sub" | "py_in sub cs" by auto
    then show "\<exists>p t. c # cs = p @ sub @ t"
    proof cases
      case 1
      then obtain t where "c # cs = sub @ t" by (auto simp: startswith_iff)
      then have "c # cs = [] @ sub @ t" by simp
      then show ?thesis by blast
    next
      case 2
      then obtain p t where "cs = p @ sub @ t" using Cons.IH by blast
      then have "c # cs = (c # p) @ sub @ t" by simp
      then show ?thesis by blast
    qed
  next
    assume "\<exists>p t. c # cs = p @ sub @ t"
    then obtain p t where pt: "c # cs = p @ sub @ t" by blast
    show "py_in sub (c # cs)"
    proof (cases p)
      case Nil
      with pt have "startswith (c # cs) sub" by (auto simp: startswith_iff)
      then show ?thesis by simp
    next
      case (Cons a p')
      with pt have "cs = p' @ sub @ t" by simp
      then have "py_in sub cs" using Cons.IH by blast
      then show ?thesis by simp
    qed
  qed
qed

lemma tutti_presenti_iff:
  "tutti_presenti valori low \<longleftrightarrow> list_all (\<lambda>v. v = [] \<or> py_in v low) valori"
  by (induction valori) auto

lemma file_corrispondenti_filter:
  "file_corrispondenti d rinominati valori =
     map fst (filter (\<lambda>p. fst p \<notin> rinominati \<and> tutti_presenti valori (snd p)) d)"
  by (induction d rinominati valori rule: file_corrispondenti.induct) auto

section \<open>The matcher\<close>

lemma file_corrispondenti_subset:
  "set (file_corrispondenti d rinominati valori) \<subseteq> set (dict_keys d)"
  by (induction d rinominati valori rule: file_corrispondenti.induct) (auto simp: dict_keys_def)

lemma file_corrispondenti_mem:
  assumes "distinct (dict_keys d)" and "(nome_file, nome_file_lower) \<in> set d"
  shows "nome_file \<in> set (file_corrispondenti d rinominati valori) \<longleftrightarrow>
           nome_file \<notin> rinominati \<and> tutti_presenti valori nome_file_lower"
  using assms
proof (induction d rinominati valori rule: file_corrispondenti.induct)
  case (1 rinominati valori)
  then show ?case by simp
next
  case (2 n l rest rinominati valori)
  show ?case
  proof (cases "n = nome_file")
    case True
    with 2(4) have notin: "nome_file \<notin> set (dict_keys rest)" by (simp add: dict_keys_def)
    then have "(nome_file, nome_file_lower) \<notin> set rest"
      by (force simp: dict_keys_def)
    with 2(5) True have l: "l = nome_file_lower" by simp
    from notin have "nome_file \<notin> set (file_corrispondenti rest rinominati valori)"
      using file_corrispondenti_subset by blast
    with True l show ?thesis by simp
  next
    case False
    with 2 show ?thesis by (simp add: dict_keys_def)
  qed
qed

lemma tutti_presenti_spec:
  "tutti_presenti vs low \<longleftrightarrow>
     (\<forall>valore \<in> set vs. valore \<noteq> [] \<longrightarrow> (\<exists>p t. low = p @ valore @ t))"
  unfolding tutti_presenti_iff list_all_iff py_in_iff by blast

text \<open>
  The index of a run has distinct names, each stored with its own lowercase form, from the
  moment it is built; deleting entries keeps both.
\<close>

lemma dict_set_keys:
  "set (dict_keys (dict_set d k v)) = insert k (set (dict_keys d))"
  by (induction d) (auto simp: dict_keys_def)

lemma dict_set_distinct:
  "distinct (dict_keys d) \<Longrightarrow> distinct (dict_keys (dict_set d k v))"
proof (induction d)
  case Nil
  then show ?case by (simp add: dict_keys_def)
next
  case (Cons p d)
  have "set (dict_keys (dict_set d k v)) = insert k (set (dict_keys d))"
    by (rule dict_set_keys)
  then show ?case using Cons by (auto simp: dict_keys_def)
qed

lemma dict_set_entries:
  "p \<in> set (dict_set d k v) \<Longrightarrow> p \<in> set d \<or> p = (k, v)"
  by (induction d) (auto split: if_splits)

lemma build_index_distinct:
  "distinct (dict_keys d) \<Longrightarrow> distinct (dict_keys (build_index files d))"
  by (induction files arbitrary: d) (simp_all add: dict_set_distinct)

lemma build_index_lower:
  "p \<in> set (build_index files d) \<Longrightarrow> p \<in> set d \<or> snd p = lower (fst p)"
proof (induction files arbitrary: d)
  case Nil
  then show ?case by simp
next
  case (Cons f files)
  from Cons.prems have "p \<in> set (build_index files (dict_set d f (lower f)))" by simp
  then have "p \<in> set (dict_set d f (lower f)) \<or> snd p = lower (fst p)"
    by (rule Cons.IH)
  then show ?case using dict_set_entries [of p d f "lower f"] by auto
qed

lemma initial_index_wellformed:
  "distinct (dict_keys (indice_file (initial_state (build_index files []) w)))"
  "p \<in> set (indice_file (initial_state (build_index files []) w)) \<Longrightarrow> snd p = lower (fst p)"
  using build_index_distinct [of "[]" files] build_index_lower [of p files "[]"]
  by (simp_all add: initial_state_def dict_keys_def)

lemma filter_keeps_distinct:
  "distinct (dict_keys d) \<Longrightarrow> distinct (dict_keys (filter P d))"
  by (simp add: dict_keys_def distinct_map_filter)

lemma build_index_keys:
  "set (dict_keys (build_index files d)) = set files \<union> set (dict_keys d)"
  by (induction files arbitrary: d) (auto simp: dict_set_keys)

lemma build_index_entry:
  assumes "nome_file \<in> set files"
  shows "(nome_file, lower nome_file) \<in> set (build_index files [])"
proof -
  have "nome_file \<in> set (dict_keys (build_index files []))"
    using assms by (simp add: build_index_keys)
  then obtain l where l: "(nome_file, l) \<in> set (build_index files [])"
    by (auto simp: dict_keys_def)
  then have "l = lower nome_file"
    using build_index_lower [of "(nome_file, l)" files "[]"] by simp
  with l show ?thesis by simp
qed

lemma matcher_selects_stored:
  assumes "distinct (dict_keys d)"
    and "(nome_file, nome_file_lower) \<in> set d"
    and "nome_file \<notin> rinominati"
  shows "nome_file \<in> set (file_corrispondenti d rinominati valori) \<longleftrightarrow>
           (\<forall>valore \<in> set valori.
              valore \<noteq> [] \<longrightarrow> (\<exists>p t. nome_file_lower = p @ valore @ t))"
  using file_corrispondenti_mem [OF assms(1,2)] assms(3)
  unfolding tutti_presenti_spec by simp

text \<open>
  C1. The index of a run is the one built from the listing of the photo folder, less the
  entries deleted since. A candidate is a file of the listing whose entry is still in the
  index and whose name is not in \<^verbatim>\<open>file_rinominati\<close>. For every mapping of
  attribute values, the loop selects the candidate if and only if every non-empty value
  of the mapping occurs in the lowercased name of the file, \<open>lower nome_file\<close>, as a
  contiguous run of characters; when every value of the mapping is empty (in particular
  when the mapping has no entry) the candidate is selected.
\<close>

theorem matcher_selects_iff:
  assumes "nome_file \<in> set files"
    and "nome_file \<notin> removed"
    and "nome_file \<notin> rinominati"
  shows "(nome_file \<in> set (file_corrispondenti
                             (filter (\<lambda>p. fst p \<notin> removed) (build_index files []))
                             rinominati (dict_values valori)) \<longleftrightarrow>
            (\<forall>valore \<in> set (dict_values valori).
               valore \<noteq> [] \<longrightarrow> (\<exists>p t. lower nome_file = p @ valore @ t)))
         \<and> (list_all (\<lambda>valore. valore = []) (dict_values valori) \<longrightarrow>
              nome_file \<in> set (file_corrispondenti
                                 (filter (\<lambda>p. fst p \<notin> removed) (build_index files []))
                                 rinominati (dict_values valori)))"
proof -
  let ?d = "filter (\<lambda>p. fst p \<notin> removed) (build_index files [])"
  have d: "distinct (dict_keys ?d)"
  proof (rule filter_keeps_distinct)
    show "distinct (dict_keys (build_index files []))"
      using build_index_distinct [of "[]" files] by (simp add: dict_keys_def)
  qed
  have e: "(nome_file, lower nome_file) \<in> set ?d"
    using build_index_entry [OF assms(1)] assms(2) by simp
  note sel = matcher_selects_stored [OF d e assms(3), of "dict_values valori"]
  have "list_all (\<lambda>valore. valore = []) (dict_values valori) \<Longrightarrow>
          (\<forall>valore \<in> set (dict_values valori).
             valore \<noteq> [] \<longrightarrow> (\<exists>p t. lower nome_file = p @ valore @ t))"
    unfolding list_all_iff by blast
  with sel show ?thesis by blast
qed

theorem matcher_selects_iff_witness:
  "''SKY-BLUE.JPG'' \<in> set [''SKY-BLUE.JPG'', ''blu.jpg'']
   \<and> ''SKY-BLUE.JPG'' \<notin> ({} :: string set)
   \<and> ''SKY-BLUE.JPG'' \<in> set (file_corrispondenti
         (filter (\<lambda>p. fst p \<notin> {}) (build_index [''SKY-BLUE.JPG'', ''blu.jpg''] [])) {}
         (dict_values [(''Colore'', ''blue''), (''Parte'', [])]))
   \<and> ''blu.jpg'' \<notin> set (file_corrispondenti
         (filter (\<lambda>p. fst p \<notin> {}) (build_index [''SKY-BLUE.JPG'', ''blu.jpg''] [])) {}
         (dict_values [(''Colore'', ''blue''), (''Parte'', [])]))
   \<and> lower ''SKY-BLUE.JPG'' = ''sky-blue.jpg''
   \<and> (\<exists>p t. lower ''SKY-BLUE.JPG'' = p @ ''blue'' @ t)"
proof -
  let ?files = "[''SKY-BLUE.JPG'', ''blu.jpg'']"
  let ?v = "[(''Colore'', ''blue''), (''Parte'', [])]"
  let ?found = "file_corrispondenti
                  (filter (\<lambda>p. fst p \<notin> {}) (build_index ?files [])) {} (dict_values ?v)"
  have h1: "''SKY-BLUE.JPG'' \<in> set ?files" by simp
  have h2: "''SKY-BLUE.JPG'' \<notin> ({} :: string set)" by simp
  have found: "?found = [''SKY-BLUE.JPG'']" by code_simp
  have sel: "''SKY-BLUE.JPG'' \<in> set ?found" and nsel: "''blu.jpg'' \<notin> set ?found"
    unfolding found by simp_all
  have low: "lower ''SKY-BLUE.JPG'' = ''sky-blue.jpg''" by code_simp
  from sel matcher_selects_iff [OF h1 h2 h2, of ?v]
  have "\<forall>valore \<in> set (dict_values ?v).
          valore \<noteq> [] \<longrightarrow> (\<exists>p t. lower ''SKY-BLUE.JPG'' = p @ valore @ t)"
    by blast
  moreover have "''blue'' \<in> set (dict_values ?v)" by (simp add: dict_values_def)
  ultimately have "\<exists>p t. lower ''SKY-BLUE.JPG'' = p @ ''blue'' @ t" by blast
  with h1 h2 sel nsel low show ?thesis by blast
qed

text \<open>
  Letters and spaces beyond ASCII: \<^verbatim>\<open>str.lower\<close> folds the accented capital
  letters and leaves the multiplication sign alone, \<^verbatim>\<open>str.strip\<close> removes the
  no-break space and the next-line character.
\<close>

lemma latin1_examples:
  "lower [CHR 0xC9, CHR ''T'', CHR 0xC9] = [CHR 0xE9, CHR ''t'', CHR 0xE9]"
  "lower [CHR 0xD7, CHR 0xDF, CHR 0xFF] = [CHR 0xD7, CHR 0xDF, CHR 0xFF]"
  "strip [CHR 0xA0, CHR ''a'', CHR '' '', CHR ''b'', CHR 0x85, CHR 0x09] = ''a b''"
  by code_simp+

text \<open>The examples of the specification: lowercase on both sides, no tokenization.\<close>

lemma substring_examples:
  "py_in ''blue'' (lower ''blueskirt.jpg'')"
  "py_in ''blue'' (lower ''SKY-BLUE.JPG'')"
  "\<not> py_in ''blue'' (lower ''blu.jpg'')"
  by code_simp+

section \<open>rename_files: what one call does\<close>

lemma filter_absent_key: "k \<notin> set (dict_keys d) \<Longrightarrow> filter (\<lambda>p. fst p \<noteq> k) d = d"
  by (induction d) (auto simp: dict_keys_def)

lemma rename_one_attempt:
  "snd (rename_one pf ean photo_folder i f acc) =
     (f, ean @ ''-'' @ str_nat i @ snd (splitext f),
      fst (os_rename pf (world (snd acc)) (os_path_join photo_folder f)
             (os_path_join photo_folder (ean @ ''-'' @ str_nat i @ snd (splitext f)))))"
  by (cases acc) (simp add: rename_one_def Let_def split: sum.splits)

lemma rename_one_count:
  "fst (fst (rename_one pf ean photo_folder i f acc)) =
     fst acc + (if att_ok (snd (rename_one pf ean photo_folder i f acc)) then 1 else 0)"
  by (cases acc) (simp add: rename_one_def Let_def att_ok_def split: sum.splits)

lemma rename_one_index:
  "indice_file (snd (fst (rename_one pf ean photo_folder i f acc))) =
     (if att_ok (snd (rename_one pf ean photo_folder i f acc))
      then filter (\<lambda>p. fst p \<noteq> f) (indice_file (snd acc))
      else indice_file (snd acc))"
  by (cases acc)
     (simp add: rename_one_def Let_def att_ok_def dict_del_def filter_absent_key split: sum.splits)

lemma rename_one_rinominati:
  "file_rinominati (snd (fst (rename_one pf ean photo_folder i f acc))) =
     (if att_ok (snd (rename_one pf ean photo_folder i f acc))
      then insert f (file_rinominati (snd acc))
      else file_rinominati (snd acc))"
  by (cases acc) (simp add: rename_one_def Let_def att_ok_def split: sum.splits)

lemma rename_one_lists:
  "ean_non_trovati (snd (fst (rename_one pf ean photo_folder i f acc))) = ean_non_trovati (snd acc)"
  "codeno (snd (fst (rename_one pf ean photo_folder i f acc))) = codeno (snd acc)"
  "codesi (snd (fst (rename_one pf ean photo_folder i f acc))) = codesi (snd acc)"
  by (cases acc; simp add: rename_one_def Let_def split: sum.splits)+

lemma rename_loop_old:
  "map att_old (snd (rename_loop pf ean photo_folder i files acc)) = files"
proof (induction files arbitrary: i acc)
  case Nil
  then show ?case by simp
next
  case (Cons f files)
  obtain acc1 a where one: "rename_one pf ean photo_folder i f acc = (acc1, a)"
    by (cases "rename_one pf ean photo_folder i f acc")
  obtain acc2 t where rest: "rename_loop pf ean photo_folder (Suc i) files acc1 = (acc2, t)"
    by (cases "rename_loop pf ean photo_folder (Suc i) files acc1")
  have "att_old a = f"
    using rename_one_attempt [of pf ean photo_folder i f acc] one by (simp add: att_old_def)
  moreover have "map att_old t = files"
    using Cons.IH [of "Suc i" acc1] rest by simp
  ultimately show ?case using one rest by simp
qed

lemma rename_loop_new:
  "map att_new (snd (rename_loop pf ean photo_folder i files acc)) =
     map (\<lambda>j. ean @ ''-'' @ str_nat (i + j) @ snd (splitext (files ! j))) [0..<length files]"
proof (induction files arbitrary: i acc)
  case Nil
  then show ?case by simp
next
  case (Cons f files)
  obtain acc1 a where one: "rename_one pf ean photo_folder i f acc = (acc1, a)"
    by (cases "rename_one pf ean photo_folder i f acc")
  obtain acc2 t where rest: "rename_loop pf ean photo_folder (Suc i) files acc1 = (acc2, t)"
    by (cases "rename_loop pf ean photo_folder (Suc i) files acc1")
  have a: "att_new a = ean @ ''-'' @ str_nat i @ snd (splitext f)"
    using rename_one_attempt [of pf ean photo_folder i f acc] one by (simp add: att_new_def)
  have t: "map att_new t =
             map (\<lambda>j. ean @ ''-'' @ str_nat (Suc i + j) @ snd (splitext (files ! j)))
               [0..<length files]"
    using Cons.IH [of "Suc i" acc1] rest by simp
  have "[0..<length (f # files)] = 0 # map Suc [0..<length files]"
    by (simp add: upt_conv_Cons map_Suc_upt del: upt_Suc)
  then show ?case using one rest a t by (simp add: comp_def del: upt_Suc)
qed

lemma rename_loop_count:
  "fst (fst (rename_loop pf ean photo_folder i files acc)) =
     fst acc + length (filter att_ok (snd (rename_loop pf ean photo_folder i files acc)))"
proof (induction files arbitrary: i acc)
  case Nil
  then show ?case by simp
next
  case (Cons f files)
  obtain acc1 a where one: "rename_one pf ean photo_folder i f acc = (acc1, a)"
    by (cases "rename_one pf ean photo_folder i f acc")
  obtain acc2 t where rest: "rename_loop pf ean photo_folder (Suc i) files acc1 = (acc2, t)"
    by (cases "rename_loop pf ean photo_folder (Suc i) files acc1")
  have "fst acc1 = fst acc + (if att_ok a then 1 else 0)"
    using rename_one_count [of pf ean photo_folder i f acc] one by simp
  moreover have "fst acc2 = fst acc1 + length (filter att_ok t)"
    using Cons.IH [of "Suc i" acc1] rest by simp
  ultimately show ?case using one rest by simp
qed

lemma rename_loop_index:
  "indice_file (snd (fst (rename_loop pf ean photo_folder i files acc))) =
     filter (\<lambda>p. fst p \<notin> set (renamed_by (snd (rename_loop pf ean photo_folder i files acc))))
       (indice_file (snd acc))"
proof (induction files arbitrary: i acc)
  case Nil
  then show ?case by (simp add: renamed_by_def)
next
  case (Cons f files)
  obtain acc1 a where one: "rename_one pf ean photo_folder i f acc = (acc1, a)"
    by (cases "rename_one pf ean photo_folder i f acc")
  obtain acc2 t where rest: "rename_loop pf ean photo_folder (Suc i) files acc1 = (acc2, t)"
    by (cases "rename_loop pf ean photo_folder (Suc i) files acc1")
  have old: "att_old a = f"
    using rename_one_attempt [of pf ean photo_folder i f acc] one by (simp add: att_old_def)
  have i1: "indice_file (snd acc1) =
              (if att_ok a then filter (\<lambda>p. fst p \<noteq> f) (indice_file (snd acc))
               else indice_file (snd acc))"
    using rename_one_index [of pf ean photo_folder i f acc] one by simp
  have i2: "indice_file (snd acc2) =
              filter (\<lambda>p. fst p \<notin> set (renamed_by t)) (indice_file (snd acc1))"
    using Cons.IH [of "Suc i" acc1] rest by simp
  show ?case
    using one rest i1 i2 old by (auto simp: renamed_by_def intro: filter_cong)
qed

lemma rename_loop_rinominati:
  "file_rinominati (snd (fst (rename_loop pf ean photo_folder i files acc))) =
     file_rinominati (snd acc)
       \<union> set (renamed_by (snd (rename_loop pf ean photo_folder i files acc)))"
proof (induction files arbitrary: i acc)
  case Nil
  then show ?case by (simp add: renamed_by_def)
next
  case (Cons f files)
  obtain acc1 a where one: "rename_one pf ean photo_folder i f acc = (acc1, a)"
    by (cases "rename_one pf ean photo_folder i f acc")
  obtain acc2 t where rest: "rename_loop pf ean photo_folder (Suc i) files acc1 = (acc2, t)"
    by (cases "rename_loop pf ean photo_folder (Suc i) files acc1")
  have old: "att_old a = f"
    using rename_one_attempt [of pf ean photo_folder i f acc] one by (simp add: att_old_def)
  have r1: "file_rinominati (snd acc1) =
              (if att_ok a then insert f (file_rinominati (snd acc))
               else file_rinominati (snd acc))"
    using rename_one_rinominati [of pf ean photo_folder i f acc] one by simp
  have r2: "file_rinominati (snd acc2) = file_rinominati (snd acc1) \<union> set (renamed_by t)"
    using Cons.IH [of "Suc i" acc1] rest by simp
  show ?case
    using one rest r1 r2 old by (auto simp: renamed_by_def)
qed

lemma rename_loop_lists:
  "ean_non_trovati (snd (fst (rename_loop pf ean photo_folder i files acc))) = ean_non_trovati (snd acc)"
  "codeno (snd (fst (rename_loop pf ean photo_folder i files acc))) = codeno (snd acc)"
  "codesi (snd (fst (rename_loop pf ean photo_folder i files acc))) = codesi (snd acc)"
  by (induction files arbitrary: i acc; simp add: rename_one_lists split: prod.splits;
      metis rename_one_lists fst_conv snd_conv)+

section \<open>Target names\<close>

text \<open>
  C5. For a matched sequence \<open>files\<close> of length k and the EAN \<open>ean\<close>, the i-th call of
  \<^verbatim>\<open>os.rename\<close> is made for the i-th file of the sequence, and its target name is
  \<open>ean\<close>, a hyphen, the decimal digits of i, and the extension that
  \<^verbatim>\<open>os.path.splitext\<close> gives for that file, for i = 0, ..., k - 1.
\<close>

theorem rename_files_target_names:
  "map att_new (snd (rename_files pf files ean photo_folder st)) =
     map (\<lambda>i. ean @ ''-'' @ str_nat i @ snd (splitext (files ! i))) [0..<length files]
   \<and> map att_old (snd (rename_files pf files ean photo_folder st)) = files"
  using rename_loop_new [of pf ean photo_folder 0 files "(0, st)"]
        rename_loop_old [of pf ean photo_folder 0 files "(0, st)"]
  by (simp add: rename_files_def)

theorem rename_files_target_names_witness:
  "map att_new (snd (rename_files renames_all [''front.jpg'', ''back.JPG'', ''side.jpg'']
                       ''1234567890123'' ''./pe25/photoes/guess/'' red_shoes)) =
     [''1234567890123-0.jpg'', ''1234567890123-1.JPG'', ''1234567890123-2.jpg'']"
proof -
  let ?files = "[''front.jpg'', ''back.JPG'', ''side.jpg'']"
  have "map (\<lambda>i. ''1234567890123'' @ ''-'' @ str_nat i @ snd (splitext (?files ! i)))
          [0..<length ?files] =
        [''1234567890123-0.jpg'', ''1234567890123-1.JPG'', ''1234567890123-2.jpg'']"
    by code_simp
  then show ?thesis
    using rename_files_target_names
            [of renames_all ?files "''1234567890123''" "''./pe25/photoes/guess/''" red_shoes]
    by simp
qed

section \<open>Consumption from the index\<close>

text \<open>
  C3, as the code has it. After \<^verbatim>\<open>rename_files\<close> the index holds exactly the entries
  it held before whose file was not renamed by a call that returned: an entry is removed
  when its rename succeeded, and the entry of a file whose rename failed stays in the
  index, where later rows find it again.
\<close>

theorem consumption_follows_success:
  "indice_file (snd (fst (rename_files pf files ean photo_folder st))) =
     filter (\<lambda>p. fst p \<notin> set (renamed_by (snd (rename_files pf files ean photo_folder st))))
       (indice_file st)"
  using rename_loop_index [of pf ean photo_folder 0 files "(0, st)"]
  by (simp add: rename_files_def)

text \<open>
  C3 as the specification words it does not hold: when every rename fails, the file of the first row is still
  in the index after the row, and the second row matches it and tries again.
\<close>

theorem failed_rename_is_reconsidered:
  "process_rows renames_none [''Campo1'', ''Campo2''] ''p/'' 0 [row_a, row_b]
     (0, initial_state [(''red-shoe.jpg'', ''red-shoe.jpg'')] ()) =
   ((0, (initial_state [(''red-shoe.jpg'', ''red-shoe.jpg'')] ())
          \<lparr>codesi := [''1111111111111'', ''2222222222222'']\<rparr>),
    [[(''red-shoe.jpg'', ''1111111111111-0.jpg'', False)],
     [(''red-shoe.jpg'', ''2222222222222-0.jpg'', False)]])"
  by code_simp

section \<open>Deleting an absent name\<close>

text \<open>
  C9. The program removes a name from the index in one place, the statement
  \<^verbatim>\<open>del indice_file[vecchio_nome]\<close> inside the \<^verbatim>\<open>try\<close> of \<^verbatim>\<open>rename_files\<close>.
  For a name that is absent from the index the \<^verbatim>\<open>KeyError\<close> of the statement is
  caught by the handler of that \<^verbatim>\<open>try\<close>. So for every index, every platform and
  every sequence of names that are absent from the index, \<^verbatim>\<open>rename_files\<close> goes
  through all the names and returns, and the index it leaves is the index it was given:
  the same entries, and the same number of them.
\<close>

theorem removal_of_absent_name_is_silent:
  assumes "set files \<inter> set (dict_keys (indice_file st)) = {}"
  shows "indice_file (snd (fst (rename_files pf files ean photo_folder st))) = indice_file st
         \<and> length (indice_file (snd (fst (rename_files pf files ean photo_folder st))))
             = length (indice_file st)
         \<and> map att_old (snd (rename_files pf files ean photo_folder st)) = files"
proof -
  let ?t = "snd (rename_loop pf ean photo_folder 0 files (0, st))"
  have old: "map att_old ?t = files" by (rule rename_loop_old)
  have "set (renamed_by ?t) \<subseteq> set (map att_old ?t)" by (auto simp: renamed_by_def)
  then have sub: "set (renamed_by ?t) \<subseteq> set files" using old by simp
  have "filter (\<lambda>p. fst p \<notin> set (renamed_by ?t)) (indice_file st) = indice_file st"
  proof (rule filter_True)
    show "\<forall>p \<in> set (indice_file st). fst p \<notin> set (renamed_by ?t)"
      using assms sub by (auto simp: dict_keys_def)
  qed
  then have "indice_file (snd (fst (rename_loop pf ean photo_folder 0 files (0, st))))
               = indice_file st"
    using rename_loop_index [of pf ean photo_folder 0 files "(0, st)"] by simp
  then show ?thesis using old by (simp add: rename_files_def)
qed

theorem removal_of_absent_name_is_silent_witness:
  "set [''blue.jpg'', ''blue.jpg''] \<inter> set (dict_keys (indice_file red_shoes)) = {}
   \<and> dict_del (indice_file red_shoes) ''blue.jpg'' = Inl KeyError
   \<and> indice_file (snd (fst (rename_files renames_all [''blue.jpg'', ''blue.jpg'']
                               ''1111111111111'' ''p/'' red_shoes))) = indice_file red_shoes
   \<and> length (indice_file (snd (fst (rename_files renames_all [''blue.jpg'', ''blue.jpg'']
                               ''1111111111111'' ''p/'' red_shoes)))) = 2"
proof -
  have h: "set [''blue.jpg'', ''blue.jpg''] \<inter> set (dict_keys (indice_file red_shoes)) = {}"
    by code_simp
  have k: "dict_del (indice_file red_shoes) ''blue.jpg'' = Inl KeyError"
    by code_simp
  have n: "length (indice_file red_shoes) = 2"
    by code_simp
  show ?thesis
    using h k n removal_of_absent_name_is_silent
                  [OF h, of renames_all "''1111111111111''" "''p/''"]
    by simp
qed

section \<open>Rows without an EAN\<close>

lemma process_row_skip:
  "ean_of riga = None \<Longrightarrow>
     process_row pf columns_to_match photo_folder idx riga acc = (acc, [])"
  by (cases acc) (simp add: process_row_def)

lemma process_row_unmatched:
  "ean_of riga = Some ean \<Longrightarrow> find_files columns_to_match riga st = [] \<Longrightarrow>
     process_row pf columns_to_match photo_folder idx riga (renamed, st) =
       ((renamed,
         st\<lparr>ean_non_trovati := ean_non_trovati st @
               [add_columns columns_to_match riga
                  [(''riga_excel'', PInt (int idx + 1)), (''ean'', PStr ean),
                   (''data'', PStr (strftime_now pf (world st) ''%Y-%m-%d %H:%M:%S''))]],
             codeno := codeno st @ [ean]\<rparr>), [])"
  by (simp add: process_row_def)

lemma process_row_assigned:
  "ean_of riga = Some ean \<Longrightarrow> find_files columns_to_match riga st \<noteq> [] \<Longrightarrow>
     process_row pf columns_to_match photo_folder idx riga (renamed, st) =
       ((renamed + fst (fst (rename_files pf (find_files columns_to_match riga st) ean
                               photo_folder (st\<lparr>codesi := codesi st @ [ean]\<rparr>))),
         snd (fst (rename_files pf (find_files columns_to_match riga st) ean
                     photo_folder (st\<lparr>codesi := codesi st @ [ean]\<rparr>)))),
        snd (rename_files pf (find_files columns_to_match riga st) ean
               photo_folder (st\<lparr>codesi := codesi st @ [ean]\<rparr>)))"
  by (simp add: process_row_def split: prod.splits)

lemma process_row_records_ean:
  assumes "ean_of riga = Some ean"
  shows "length (codeno (snd (fst (process_row pf columns_to_match photo_folder idx riga acc))))
         + length (codesi (snd (fst (process_row pf columns_to_match photo_folder idx riga acc))))
         = Suc (length (codeno (snd acc)) + length (codesi (snd acc)))"
proof (cases acc)
  case (Pair renamed st)
  show ?thesis
  proof (cases "find_files columns_to_match riga st = []")
    case True
    then show ?thesis using assms Pair by (simp add: process_row_unmatched)
  next
    case False
    then show ?thesis
      using assms Pair by (simp add: process_row_assigned rename_files_def rename_loop_lists)
  qed
qed

lemma ean_of_None: "ean_of riga = None \<longleftrightarrow> (\<nexists>s. riga EAN_COLUMN = Some (Str s))"
  by (auto simp: ean_of_def split: option.splits cell.splits)

text \<open>
  C4, as the code has it. The loop passes over a row, leaving every object and counter as
  it was and calling \<^verbatim>\<open>os.rename\<close> for no file, if and only if the EAN cell of the
  row is missing or NaN. A row whose EAN cell holds a text is processed, also when the
  text is empty after stripping.
\<close>

theorem row_skipped_iff_ean_null:
  "process_row pf columns_to_match photo_folder idx riga acc = (acc, [])
     \<longleftrightarrow> (\<nexists>s. riga EAN_COLUMN = Some (Str s))"
proof (cases "ean_of riga")
  case None
  then show ?thesis using process_row_skip [OF None] ean_of_None by blast
next
  case (Some ean)
  have "fst (process_row pf columns_to_match photo_folder idx riga acc) \<noteq> acc"
    using process_row_records_ean [OF Some, of pf columns_to_match photo_folder idx acc]
    by auto
  then have "process_row pf columns_to_match photo_folder idx riga acc \<noteq> (acc, [])"
    by auto
  moreover have "\<exists>s. riga EAN_COLUMN = Some (Str s)"
    using Some ean_of_None [of riga] by auto
  ultimately show ?thesis by blast
qed

theorem row_skipped_iff_ean_null_witness:
  "process_row renames_all [''Campo1'', ''Campo2''] ''p/'' 0
     [''EAN'' \<mapsto> NaN, ''Campo1'' \<mapsto> Str ''red''] (0, red_shoes) = ((0, red_shoes), [])"
proof -
  have "\<nexists>s. [''EAN'' \<mapsto> NaN, ''Campo1'' \<mapsto> Str ''red''] EAN_COLUMN = Some (Str s)"
    by (simp add: EAN_COLUMN_def)
  then show ?thesis
    using row_skipped_iff_ean_null
            [of renames_all "[''Campo1'', ''Campo2'']" "''p/''" 0
                "[''EAN'' \<mapsto> NaN, ''Campo1'' \<mapsto> Str ''red'']" "(0, red_shoes)"]
    by blast
qed

text \<open>
  C4 as the specification words it does not hold: an EAN cell of two spaces is blank after stripping, and the
  row is not passed over. It has no attribute value, so it matches both files and renames
  them with an empty EAN.
\<close>

theorem blank_ean_row_is_processed:
  "strip ''  '' = []
   \<and> snd (process_row renames_all [''Campo1'', ''Campo2''] ''p/'' 0 row_blank_ean (0, red_shoes)) =
       [(''red-shoe.jpg'', ''-0.jpg'', True), (''red-shoe-2.jpg'', ''-1.jpg'', True)]
   \<and> codesi (snd (fst (process_row renames_all [''Campo1'', ''Campo2''] ''p/'' 0 row_blank_ean
                         (0, red_shoes)))) = [[]]"
  by code_simp

section \<open>The record of an unmatched row\<close>

lemma map_of_dict_set: "map_of (dict_set d k v) = (map_of d)(k \<mapsto> v)"
  by (induction d) (auto simp: fun_eq_iff)

lemma map_of_add_columns:
  "map_of (add_columns columns riga info) colonna =
     (case (if colonna \<in> set columns then riga colonna else None) of
        Some (Str s) \<Rightarrow> Some (PStr s)
      | _ \<Rightarrow> map_of info colonna)"
  by (induction columns arbitrary: info)
     (auto simp: map_of_dict_set split: option.splits cell.splits)

lemma map_of_extract_valori:
  "map_of (extract_valori columns riga valori) colonna =
     (case (if colonna \<in> set columns then riga colonna else None) of
        Some (Str s) \<Rightarrow> Some (strip (lower s))
      | _ \<Rightarrow> map_of valori colonna)"
  by (induction columns arbitrary: valori)
     (auto simp: map_of_dict_set split: option.splits cell.splits)

text \<open>
  C10. When a row with an EAN matches no file, one record is appended to
  \<^verbatim>\<open>ean_non_trovati\<close>. For a column of the schema whose cell is a text, the record
  holds the cell as it is, while the value used for matching is the cell lowercased and
  stripped. For a column of the schema whose cell is missing or NaN, the record has no
  entry (the three fixed keys of the record apart).
\<close>

theorem unmatched_record_keeps_raw_cells:
  assumes "ean_of riga = Some ean"
    and "find_files columns_to_match riga st = []"
    and "colonna \<in> set columns_to_match"
  shows "\<exists>info.
           ean_non_trovati (snd (fst (process_row pf columns_to_match photo_folder idx riga
                                        (renamed, st)))) = ean_non_trovati st @ [info]
           \<and> (\<forall>s. riga colonna = Some (Str s) \<longrightarrow>
                  map_of info colonna = Some (PStr s)
                  \<and> map_of (extract_valori columns_to_match riga []) colonna
                      = Some (strip (lower s)))
           \<and> ((\<nexists>s. riga colonna = Some (Str s))
                 \<and> colonna \<notin> {''riga_excel'', ''ean'', ''data''} \<longrightarrow>
               map_of info colonna = None)"
proof -
  let ?info = "add_columns columns_to_match riga
                 [(''riga_excel'', PInt (int idx + 1)), (''ean'', PStr ean),
                  (''data'', PStr (strftime_now pf (world st) ''%Y-%m-%d %H:%M:%S''))]"
  have 1: "ean_non_trovati (snd (fst (process_row pf columns_to_match photo_folder idx riga
                                        (renamed, st)))) = ean_non_trovati st @ [?info]"
    using assms(1,2) by (simp add: process_row_unmatched)
  have 2: "\<forall>s. riga colonna = Some (Str s) \<longrightarrow>
             map_of ?info colonna = Some (PStr s)
             \<and> map_of (extract_valori columns_to_match riga []) colonna = Some (strip (lower s))"
    using assms(3) by (simp add: map_of_add_columns map_of_extract_valori)
  have 3: "(\<nexists>s. riga colonna = Some (Str s))
             \<and> colonna \<notin> {''riga_excel'', ''ean'', ''data''} \<longrightarrow>
           map_of ?info colonna = None"
    using assms(3)
    by (auto simp: map_of_add_columns split: option.splits cell.splits)
  from 1 2 3 show ?thesis by blast
qed

theorem unmatched_record_keeps_raw_cells_witness:
  "ean_of row_untidy = Some ''3333333333333''
   \<and> find_files [''Campo1'', ''Campo2''] row_untidy red_shoes = []
   \<and> ''Campo1'' \<in> set [''Campo1'', ''Campo2'']
   \<and> row_untidy ''Campo1'' = Some (Str '' Sky BLUE '')
   \<and> strip (lower '' Sky BLUE '') = ''sky blue''
   \<and> (\<exists>info.
         ean_non_trovati (snd (fst (process_row renames_all [''Campo1'', ''Campo2''] ''p/'' 4
                                      row_untidy (0, red_shoes)))) =
           ean_non_trovati red_shoes @ [info]
         \<and> map_of info ''Campo1'' = Some (PStr '' Sky BLUE '')
         \<and> map_of (extract_valori [''Campo1'', ''Campo2''] row_untidy []) ''Campo1''
             = Some (strip (lower '' Sky BLUE '')))"
proof -
  have h1: "ean_of row_untidy = Some ''3333333333333''" by code_simp
  have h2: "find_files [''Campo1'', ''Campo2''] row_untidy red_shoes = []" by code_simp
  have h3: "''Campo1'' \<in> set [''Campo1'', ''Campo2'']" by simp
  have c: "row_untidy ''Campo1'' = Some (Str '' Sky BLUE '')" by (simp add: row_untidy_def)
  have v: "strip (lower '' Sky BLUE '') = ''sky blue''" by code_simp
  from unmatched_record_keeps_raw_cells
         [OF h1 h2 h3, of renames_all "''p/''" 4 0] c
  have "\<exists>info.
          ean_non_trovati (snd (fst (process_row renames_all [''Campo1'', ''Campo2''] ''p/'' 4
                                       row_untidy (0, red_shoes)))) =
            ean_non_trovati red_shoes @ [info]
          \<and> map_of info ''Campo1'' = Some (PStr '' Sky BLUE '')
          \<and> map_of (extract_valori [''Campo1'', ''Campo2''] row_untidy []) ''Campo1''
              = Some (strip (lower '' Sky BLUE ''))"
    by blast
  with h1 h2 h3 c v show ?thesis by blast
qed

section \<open>The order of the rows\<close>

lemma process_rows_append:
  "process_rows pf columns_to_match photo_folder idx (rows1 @ rows2) acc =
     (case process_rows pf columns_to_match photo_folder idx rows1 acc of
        (acc1, ts1) \<Rightarrow>
          (case process_rows pf columns_to_match photo_folder (idx + length rows1) rows2 acc1 of
             (acc2, ts2) \<Rightarrow> (acc2, ts1 @ ts2)))"
  by (induction rows1 arbitrary: idx acc) (auto split: prod.splits)

text \<open>
  C7. The index holds \<^verbatim>\<open>red-shoe.jpg\<close> and \<^verbatim>\<open>red-shoe-2.jpg\<close>, the rows A and B
  have the only attribute value \<^verbatim>\<open>red\<close>, and every rename succeeds. With A before B,
  A is recorded as found and renames both files, and B is recorded as not found; with B
  before A it is the other way round. The rows of a sheet are taken in the order of the
  sheet: the rows \<open>rows1 @ rows2\<close> are processed as \<open>rows1\<close> and then \<open>rows2\<close>.
\<close>

theorem row_order_decides_unmatched:
  "codesi (run_state (rinomina_foto_in_batch renames_all ''pe25'' ''brand''
             (Some [''red-shoe.jpg'', ''red-shoe-2.jpg'']) (Some [Some sheet_ab]) ()))
     = [''1111111111111'']
   \<and> codeno (run_state (rinomina_foto_in_batch renames_all ''pe25'' ''brand''
             (Some [''red-shoe.jpg'', ''red-shoe-2.jpg'']) (Some [Some sheet_ab]) ()))
     = [''2222222222222'']
   \<and> run_trace (rinomina_foto_in_batch renames_all ''pe25'' ''brand''
             (Some [''red-shoe.jpg'', ''red-shoe-2.jpg'']) (Some [Some sheet_ab]) ())
     = [[(''red-shoe.jpg'', ''1111111111111-0.jpg'', True),
         (''red-shoe-2.jpg'', ''1111111111111-1.jpg'', True)], []]
   \<and> codesi (run_state (rinomina_foto_in_batch renames_all ''pe25'' ''brand''
             (Some [''red-shoe.jpg'', ''red-shoe-2.jpg'']) (Some [Some sheet_ba]) ()))
     = [''2222222222222'']
   \<and> codeno (run_state (rinomina_foto_in_batch renames_all ''pe25'' ''brand''
             (Some [''red-shoe.jpg'', ''red-shoe-2.jpg'']) (Some [Some sheet_ba]) ()))
     = [''1111111111111'']
   \<and> run_trace (rinomina_foto_in_batch renames_all ''pe25'' ''brand''
             (Some [''red-shoe.jpg'', ''red-shoe-2.jpg'']) (Some [Some sheet_ba]) ())
     = [[(''red-shoe.jpg'', ''2222222222222-0.jpg'', True),
         (''red-shoe-2.jpg'', ''2222222222222-1.jpg'', True)], []]
   \<and> process_rows pf columns_to_match photo_folder idx (rows1 @ rows2) acc =
       (case process_rows pf columns_to_match photo_folder idx rows1 acc of
          (acc1, ts1) \<Rightarrow>
            (case process_rows pf columns_to_match photo_folder (idx + length rows1) rows2 acc1 of
               (acc2, ts2) \<Rightarrow> (acc2, ts1 @ ts2)))"
proof -
  have ab: "rinomina_foto_in_batch renames_all ''pe25'' ''brand''
              (Some [''red-shoe.jpg'', ''red-shoe-2.jpg'']) (Some [Some sheet_ab]) () =
            \<lparr>run_ending = Finished, run_conteggio = 2,
             run_state = (initial_state [] ())
               \<lparr>file_rinominati := {''red-shoe-2.jpg'', ''red-shoe.jpg''},
                ean_non_trovati :=
                  [[(''riga_excel'', PInt 2), (''ean'', PStr ''2222222222222''),
                    (''data'', PStr ''2025-01-01 00:00:00''), (''Campo1'', PStr ''red'')]],
                codeno := [''2222222222222''], codesi := [''1111111111111'']\<rparr>,
             run_trace = [[(''red-shoe.jpg'', ''1111111111111-0.jpg'', True),
                           (''red-shoe-2.jpg'', ''1111111111111-1.jpg'', True)], []],
             run_report = Some
               \<lparr>report_file = ''./pe25/reports/report_ean_non_trovati_brand_2025-01-01_00-00-00.csv'',
                fieldnames = [''riga_excel'', ''ean'', ''data'', ''Campo1'', ''Campo2''],
                report_rows =
                  [[(''riga_excel'', PInt 2), (''ean'', PStr ''2222222222222''),
                    (''data'', PStr ''2025-01-01 00:00:00''), (''Campo1'', PStr ''red'')]]\<rparr>\<rparr>"
    by code_simp
  have ba: "rinomina_foto_in_batch renames_all ''pe25'' ''brand''
              (Some [''red-shoe.jpg'', ''red-shoe-2.jpg'']) (Some [Some sheet_ba]) () =
            \<lparr>run_ending = Finished, run_conteggio = 2,
             run_state = (initial_state [] ())
               \<lparr>file_rinominati := {''red-shoe-2.jpg'', ''red-shoe.jpg''},
                ean_non_trovati :=
                  [[(''riga_excel'', PInt 2), (''ean'', PStr ''1111111111111''),
                    (''data'', PStr ''2025-01-01 00:00:00''), (''Campo1'', PStr ''red'')]],
                codeno := [''1111111111111''], codesi := [''2222222222222'']\<rparr>,
             run_trace = [[(''red-shoe.jpg'', ''2222222222222-0.jpg'', True),
                           (''red-shoe-2.jpg'', ''2222222222222-1.jpg'', True)], []],
             run_report = Some
               \<lparr>report_file = ''./pe25/reports/report_ean_non_trovati_brand_2025-01-01_00-00-00.csv'',
                fieldnames = [''riga_excel'', ''ean'', ''data'', ''Campo1'', ''Campo2''],
                report_rows =
                  [[(''riga_excel'', PInt 2), (''ean'', PStr ''1111111111111''),
                    (''data'', PStr ''2025-01-01 00:00:00''), (''Campo1'', PStr ''red'')]]\<rparr>\<rparr>"
    by code_simp
  show ?thesis
    unfolding ab ba by (simp add: process_rows_append initial_state_def)
qed

section \<open>No file is renamed for two rows\<close>

lemma renamed_by_subset: "set (renamed_by t) \<subseteq> set (map att_old t)"
  by (auto simp: renamed_by_def)

lemma find_files_subset:
  "set (find_files columns_to_match riga st) \<subseteq> set (dict_keys (indice_file st))"
  by (simp add: find_files_def file_corrispondenti_subset)

lemma dict_keys_filter:
  "set (dict_keys (filter (\<lambda>p. fst p \<notin> R) d)) = set (dict_keys d) - R"
  by (auto simp: dict_keys_def)

lemma rename_files_keys:
  "set (dict_keys (indice_file (snd (fst (rename_files pf files ean photo_folder st))))) =
     set (dict_keys (indice_file st))
       - set (renamed_by (snd (rename_files pf files ean photo_folder st)))"
  using rename_loop_index [of pf ean photo_folder 0 files "(0, st)"]
  by (simp add: rename_files_def dict_keys_filter)

lemma rename_files_old:
  "map att_old (snd (rename_files pf files ean photo_folder st)) = files"
  by (simp add: rename_files_def rename_loop_old)

lemma process_row_consumes:
  assumes "process_row pf columns_to_match photo_folder idx riga acc = (acc', t)"
  shows "set (map att_old t) \<subseteq> set (dict_keys (indice_file (snd acc)))"
    and "set (dict_keys (indice_file (snd acc'))) =
           set (dict_keys (indice_file (snd acc))) - set (renamed_by t)"
proof -
  obtain renamed st where acc: "acc = (renamed, st)" by (cases acc)
  have "set (map att_old t) \<subseteq> set (dict_keys (indice_file st))
        \<and> set (dict_keys (indice_file (snd acc'))) =
            set (dict_keys (indice_file st)) - set (renamed_by t)"
  proof (cases "ean_of riga")
    case None
    then show ?thesis using assms acc by (auto simp: process_row_skip renamed_by_def)
  next
    case (Some ean)
    show ?thesis
    proof (cases "find_files columns_to_match riga st = []")
      case True
      then show ?thesis
        using assms acc Some by (auto simp: process_row_unmatched renamed_by_def)
    next
      case False
      let ?r = "rename_files pf (find_files columns_to_match riga st) ean photo_folder
                  (st\<lparr>codesi := codesi st @ [ean]\<rparr>)"
      from assms acc Some False have t: "t = snd ?r" and a: "snd acc' = snd (fst ?r)"
        by (auto simp: process_row_assigned)
      have "map att_old t = find_files columns_to_match riga st"
        using t by (simp add: rename_files_old)
      moreover have "set (dict_keys (indice_file (snd acc'))) =
                       set (dict_keys (indice_file st)) - set (renamed_by t)"
        using rename_files_keys [of pf "find_files columns_to_match riga st" ean photo_folder
                                    "st\<lparr>codesi := codesi st @ [ean]\<rparr>"] t a
        by simp
      ultimately show ?thesis using find_files_subset [of columns_to_match riga st] by simp
    qed
  qed
  then show "set (map att_old t) \<subseteq> set (dict_keys (indice_file (snd acc)))"
    and "set (dict_keys (indice_file (snd acc'))) =
           set (dict_keys (indice_file (snd acc))) - set (renamed_by t)"
    using acc by simp_all
qed

lemma process_rows_consumes:
  "process_rows pf columns_to_match photo_folder idx rows acc = (acc', ts) \<Longrightarrow>
     consumes (set (dict_keys (indice_file (snd acc)))) ts
     \<and> set (dict_keys (indice_file (snd acc'))) =
         set (dict_keys (indice_file (snd acc))) - set (all_renamed ts)"
proof (induction rows arbitrary: idx acc acc' ts)
  case Nil
  then show ?case by (simp add: all_renamed_def)
next
  case (Cons riga rows)
  obtain acc1 t where one: "process_row pf columns_to_match photo_folder idx riga acc = (acc1, t)"
    by (cases "process_row pf columns_to_match photo_folder idx riga acc")
  obtain acc2 ts2 where
    rest: "process_rows pf columns_to_match photo_folder (Suc idx) rows acc1 = (acc2, ts2)"
    by (cases "process_rows pf columns_to_match photo_folder (Suc idx) rows acc1")
  from Cons.prems one rest have eq: "acc' = acc2" "ts = t # ts2" by simp_all
  note c1 = process_row_consumes [OF one]
  note c2 = Cons.IH [OF rest]
  show ?case
    using c1 c2 eq by (auto simp: all_renamed_def)
qed

lemma consumes_append:
  "consumes K (ts @ us) \<longleftrightarrow> consumes K ts \<and> consumes (K - set (all_renamed ts)) us"
proof (induction ts arbitrary: K)
  case Nil
  then show ?case by (simp add: all_renamed_def)
next
  case (Cons t ts)
  have "K - set (renamed_by t) - set (all_renamed ts) = K - set (all_renamed (t # ts))"
    by (auto simp: all_renamed_def)
  then show ?case using Cons.IH [of "K - set (renamed_by t)"] by simp
qed

lemma process_sheets_consumes:
  "process_sheets pf columns_to_match photo_folder dfs acc = (e, acc', ts) \<Longrightarrow>
     consumes (set (dict_keys (indice_file (snd acc)))) ts
     \<and> set (dict_keys (indice_file (snd acc'))) =
         set (dict_keys (indice_file (snd acc))) - set (all_renamed ts)"
proof (induction dfs arbitrary: acc e acc' ts)
  case Nil
  then show ?case by (simp add: all_renamed_def)
next
  case (Cons d dfs)
  obtain conteggio st where acc: "acc = (conteggio, st)" by (cases acc)
  show ?case
  proof (cases d)
    case None
    then show ?thesis using Cons.prems by (simp add: all_renamed_def)
  next
    case (Some df)
    show ?thesis
    proof (cases "process_sheet pf df columns_to_match photo_folder st")
      case (Inl err)
      then show ?thesis using Cons.prems Some acc by (simp add: all_renamed_def)
    next
      case (Inr res)
      obtain n st1 ts1 where res: "res = ((n, st1), ts1)" by (cases res) auto
      obtain e2 acc2 ts2 where
        rest: "process_sheets pf columns_to_match photo_folder dfs (conteggio + n, st1)
                 = (e2, acc2, ts2)"
        by (cases "process_sheets pf columns_to_match photo_folder dfs (conteggio + n, st1)")
      from Cons.prems Some acc Inr res rest
      have eq: "acc' = acc2" "ts = ts1 @ ts2" by simp_all
      from Inr res have
        rows: "process_rows pf columns_to_match photo_folder 0 (df_rows df) (0, st)
                 = ((n, st1), ts1)"
        by (simp add: process_sheet_def split: if_splits)
      have c1: "consumes (set (dict_keys (indice_file st))) ts1"
        and k1: "set (dict_keys (indice_file st1)) =
                   set (dict_keys (indice_file st)) - set (all_renamed ts1)"
        using process_rows_consumes [OF rows] by simp_all
      have c2: "consumes (set (dict_keys (indice_file st1))) ts2"
        and k2: "set (dict_keys (indice_file (snd acc2))) =
                   set (dict_keys (indice_file st1)) - set (all_renamed ts2)"
        using Cons.IH [OF rest] by simp_all
      have "consumes (set (dict_keys (indice_file st))) (ts1 @ ts2)"
        using c1 c2 k1 by (simp add: consumes_append)
      moreover have "set (dict_keys (indice_file (snd acc2))) =
                       set (dict_keys (indice_file st)) - set (all_renamed (ts1 @ ts2))"
        using k1 k2 by (auto simp: all_renamed_def)
      ultimately show ?thesis using eq acc by simp
    qed
  qed
qed

lemma consumes_attempts_subset:
  "consumes K ts \<Longrightarrow> j < length ts \<Longrightarrow> set (map att_old (ts ! j)) \<subseteq> K"
proof (induction ts arbitrary: K j)
  case Nil
  then show ?case by simp
next
  case (Cons t ts)
  show ?case
  proof (cases j)
    case 0
    then show ?thesis using Cons.prems by simp
  next
    case (Suc j')
    then have "set (map att_old (ts ! j')) \<subseteq> K - set (renamed_by t)"
      using Cons.prems Cons.IH [of "K - set (renamed_by t)" j'] by simp
    then show ?thesis using Suc by auto
  qed
qed

lemma consumes_disjoint:
  "consumes K ts \<Longrightarrow> i < j \<Longrightarrow> j < length ts \<Longrightarrow>
     set (renamed_by (ts ! i)) \<inter> set (map att_old (ts ! j)) = {}"
proof (induction ts arbitrary: K i j)
  case Nil
  then show ?case by simp
next
  case (Cons t ts)
  from Cons.prems obtain j' where j: "j = Suc j'" by (cases j) auto
  show ?case
  proof (cases i)
    case 0
    have "set (map att_old (ts ! j')) \<subseteq> K - set (renamed_by t)"
      using Cons.prems j consumes_attempts_subset [of "K - set (renamed_by t)" ts j'] by simp
    then show ?thesis using 0 j by auto
  next
    case (Suc i')
    then show ?thesis
      using Cons.prems j Cons.IH [of "K - set (renamed_by t)" i' j'] by simp
  qed
qed

lemma run_consumes:
  "\<exists>K. consumes K (run_trace (rinomina_foto_in_batch pf season brand_name listing sheets w))"
proof -
  obtain photo_folder excel_file reports_folder where
    paths: "setup_paths season brand_name = (photo_folder, excel_file, reports_folder)"
    by (cases "setup_paths season brand_name")
  show ?thesis
  proof (cases "map_of BRAND_COLUMN_MAPPINGS brand_name")
    case None
    then have "run_trace (rinomina_foto_in_batch pf season brand_name listing sheets w) = []"
      using paths by (simp add: rinomina_foto_in_batch_def)
    then show ?thesis by simp
  next
    case (Some columns_to_match)
    show ?thesis
    proof (cases listing)
      case None
      then have "run_trace (rinomina_foto_in_batch pf season brand_name listing sheets w) = []"
        using paths Some by (simp add: rinomina_foto_in_batch_def)
      then show ?thesis by simp
    next
      case listing: (Some tutti_file)
      show ?thesis
      proof (cases sheets)
        case None
        then have "run_trace (rinomina_foto_in_batch pf season brand_name listing sheets w) = []"
          using paths Some listing by (simp add: rinomina_foto_in_batch_def)
        then show ?thesis by simp
      next
        case sheets: (Some dfs)
        let ?st0 = "initial_state (build_index (file_jpg_of tutti_file) []) w"
        obtain e acc ts where
          run: "process_sheets pf columns_to_match photo_folder dfs (0, ?st0) = (e, acc, ts)"
          by (cases "process_sheets pf columns_to_match photo_folder dfs (0, ?st0)")
        have "run_trace (rinomina_foto_in_batch pf season brand_name listing sheets w) = ts"
          using paths Some listing sheets run
          by (cases acc) (simp add: rinomina_foto_in_batch_def Let_def split: sum.splits)
        then show ?thesis using process_sheets_consumes [OF run] by auto
      qed
    qed
  qed
qed

text \<open>
  C2. The run keeps one list of \<^verbatim>\<open>os.rename\<close> calls for every row it processes, in
  the order of the sheets and of the rows in each sheet. For two rows, the earlier at
  position \<open>i\<close> and the later at position \<open>j\<close>, no file renamed for the earlier row is
  among the files matched (and so attempted) for the later row, and the files renamed for
  the two rows are disjoint.
\<close>

theorem rows_rename_disjoint_files:
  assumes "i < j"
    and "j < length (run_trace (rinomina_foto_in_batch pf season brand_name listing sheets w))"
  shows "set (renamed_by (run_trace (rinomina_foto_in_batch pf season brand_name listing sheets w) ! i))
           \<inter> set (map att_old
                    (run_trace (rinomina_foto_in_batch pf season brand_name listing sheets w) ! j))
           = {}
         \<and> set (renamed_by (run_trace (rinomina_foto_in_batch pf season brand_name listing sheets w) ! i))
           \<inter> set (renamed_by
                    (run_trace (rinomina_foto_in_batch pf season brand_name listing sheets w) ! j))
           = {}"
proof -
  let ?ts = "run_trace (rinomina_foto_in_batch pf season brand_name listing sheets w)"
  obtain K where "consumes K ?ts"
    using run_consumes [of pf season brand_name listing sheets w] by auto
  then have "set (renamed_by (?ts ! i)) \<inter> set (map att_old (?ts ! j)) = {}"
    using assms by (rule consumes_disjoint)
  then show ?thesis using renamed_by_subset [of "?ts ! j"] by auto
qed

theorem rows_rename_disjoint_files_witness:
  "(0::nat) < 1
   \<and> 1 < length (run_trace (rinomina_foto_in_batch renames_all ''pe25'' ''brand''
                    (Some [''red-shoe.jpg'', ''Sky Blue.JPG'', ''notes.txt''])
                    (Some [Some sheet_mixed]) ()))
   \<and> renamed_by (run_trace (rinomina_foto_in_batch renames_all ''pe25'' ''brand''
                    (Some [''red-shoe.jpg'', ''Sky Blue.JPG'', ''notes.txt''])
                    (Some [Some sheet_mixed]) ()) ! 0) = [''red-shoe.jpg'']
   \<and> renamed_by (run_trace (rinomina_foto_in_batch renames_all ''pe25'' ''brand''
                    (Some [''red-shoe.jpg'', ''Sky Blue.JPG'', ''notes.txt''])
                    (Some [Some sheet_mixed]) ()) ! 1) = [''Sky Blue.JPG'']
   \<and> set (renamed_by (run_trace (rinomina_foto_in_batch renames_all ''pe25'' ''brand''
                    (Some [''red-shoe.jpg'', ''Sky Blue.JPG'', ''notes.txt''])
                    (Some [Some sheet_mixed]) ()) ! 0))
       \<inter> set (renamed_by (run_trace (rinomina_foto_in_batch renames_all ''pe25'' ''brand''
                    (Some [''red-shoe.jpg'', ''Sky Blue.JPG'', ''notes.txt''])
                    (Some [Some sheet_mixed]) ()) ! 1)) = {}"
proof -
  let ?ts = "run_trace (rinomina_foto_in_batch renames_all ''pe25'' ''brand''
                    (Some [''red-shoe.jpg'', ''Sky Blue.JPG'', ''notes.txt''])
                    (Some [Some sheet_mixed]) ())"
  have tr: "?ts = [[(''red-shoe.jpg'', ''1111111111111-0.jpg'', True)],
                   [(''Sky Blue.JPG'', ''3333333333333-0.JPG'', True)], []]"
    by code_simp
  have h1: "(0::nat) < 1" by simp
  have h2: "1 < length ?ts" by (simp add: tr)
  have r0: "renamed_by (?ts ! 0) = [''red-shoe.jpg'']"
    by (simp add: tr renamed_by_def att_ok_def att_old_def)
  have r1: "renamed_by (?ts ! 1) = [''Sky Blue.JPG'']"
    by (simp add: tr renamed_by_def att_ok_def att_old_def)
  from rows_rename_disjoint_files [OF h1 h2]
  have "set (renamed_by (?ts ! 0)) \<inter> set (renamed_by (?ts ! 1)) = {}" by blast
  with h1 h2 r0 r1 show ?thesis by blast
qed

section \<open>The unmatched rows and the report\<close>

lemma process_row_state_indep:
  "snd (fst (process_row pf columns_to_match photo_folder idx riga (renamed, st))) =
     snd (fst (process_row pf columns_to_match photo_folder idx riga (0, st)))"
  by (simp add: process_row_def Let_def split: option.splits prod.splits)

lemma process_row_ean_non_trovati:
  "ean_non_trovati (snd (fst (process_row pf columns_to_match photo_folder idx riga (renamed, st))))
     = ean_non_trovati st
         @ map (info_riga_at pf columns_to_match)
             (filter (no_match_at columns_to_match) [(idx, riga, st)])"
proof (cases "ean_of riga")
  case None
  then show ?thesis by (simp add: process_row_skip no_match_at_def)
next
  case (Some ean)
  show ?thesis
  proof (cases "find_files columns_to_match riga st = []")
    case True
    then show ?thesis
      using Some by (simp add: process_row_unmatched no_match_at_def info_riga_at_def)
  next
    case False
    then show ?thesis
      using Some
      by (simp add: process_row_assigned no_match_at_def rename_files_def rename_loop_lists)
  qed
qed

lemma process_rows_ean_non_trovati:
  "process_rows pf columns_to_match photo_folder idx rows (renamed, st) = ((renamed', st'), ts)
     \<Longrightarrow> ean_non_trovati st' =
           ean_non_trovati st
             @ map (info_riga_at pf columns_to_match)
                 (filter (no_match_at columns_to_match)
                    (row_moments pf columns_to_match photo_folder idx rows st))"
proof (induction rows arbitrary: idx renamed st renamed' st' ts)
  case Nil
  then show ?case by simp
next
  case (Cons riga rows)
  obtain r1 st1 t where
    one: "process_row pf columns_to_match photo_folder idx riga (renamed, st) = ((r1, st1), t)"
    by (cases "process_row pf columns_to_match photo_folder idx riga (renamed, st)") auto
  obtain acc2 ts2 where
    rest: "process_rows pf columns_to_match photo_folder (Suc idx) rows (r1, st1) = (acc2, ts2)"
    by (cases "process_rows pf columns_to_match photo_folder (Suc idx) rows (r1, st1)")
  from Cons.prems one rest have acc2: "acc2 = (renamed', st')" by simp
  have st1: "st1 = snd (fst (process_row pf columns_to_match photo_folder idx riga (0, st)))"
    using one process_row_state_indep [of pf columns_to_match photo_folder idx riga renamed st]
    by simp
  have e1: "ean_non_trovati st1 =
              ean_non_trovati st
                @ map (info_riga_at pf columns_to_match)
                    (filter (no_match_at columns_to_match) [(idx, riga, st)])"
    using process_row_ean_non_trovati [of pf columns_to_match photo_folder idx riga renamed st]
          one
    by simp
  have e2: "ean_non_trovati st' =
              ean_non_trovati st1
                @ map (info_riga_at pf columns_to_match)
                    (filter (no_match_at columns_to_match)
                       (row_moments pf columns_to_match photo_folder (Suc idx) rows st1))"
    using Cons.IH [of "Suc idx" r1 st1 renamed' st' ts2] rest acc2 by simp
  show ?case using e1 e2 st1 by simp
qed

lemma process_sheets_ean_non_trovati:
  "process_sheets pf columns_to_match photo_folder dfs (conteggio, st)
       = (Finished, (conteggio', st'), ts)
     \<Longrightarrow> ean_non_trovati st' =
           ean_non_trovati st
             @ map (info_riga_at pf columns_to_match)
                 (filter (no_match_at columns_to_match)
                    (sheet_moments pf columns_to_match photo_folder dfs st))"
proof (induction dfs arbitrary: conteggio st conteggio' st' ts)
  case Nil
  then show ?case by simp
next
  case (Cons d dfs)
  show ?case
  proof (cases d)
    case None
    then show ?thesis using Cons.prems by simp
  next
    case (Some df)
    show ?thesis
    proof (cases "process_sheet pf df columns_to_match photo_folder st")
      case (Inl err)
      then show ?thesis using Cons.prems Some by simp
    next
      case (Inr res)
      obtain n st1 ts1 where res: "res = ((n, st1), ts1)" by (cases res) auto
      obtain e2 acc2 ts2 where
        rest: "process_sheets pf columns_to_match photo_folder dfs (conteggio + n, st1)
                 = (e2, acc2, ts2)"
        by (cases "process_sheets pf columns_to_match photo_folder dfs (conteggio + n, st1)")
      from Cons.prems Some Inr res rest
      have eq: "e2 = Finished" "acc2 = (conteggio', st')" by simp_all
      from Inr res have
        rows: "process_rows pf columns_to_match photo_folder 0 (df_rows df) (0, st)
                 = ((n, st1), ts1)"
        by (simp add: process_sheet_def split: if_splits)
      note e1 = process_rows_ean_non_trovati [OF rows]
      have e2: "ean_non_trovati st' =
                  ean_non_trovati st1
                    @ map (info_riga_at pf columns_to_match)
                        (filter (no_match_at columns_to_match)
                           (sheet_moments pf columns_to_match photo_folder dfs st1))"
        using Cons.IH [of "conteggio + n" st1 conteggio' st' ts2] rest eq by simp
      show ?thesis using e1 e2 Some Inr res by simp
    qed
  qed
qed

lemma riga_excel_at:
  "''riga_excel'' \<notin> set columns_to_match \<Longrightarrow>
     map_of (info_riga_at pf columns_to_match m) ''riga_excel'' = Some (PInt (int (fst m) + 1))"
  by (cases m) (simp add: info_riga_at_def map_of_add_columns)

lemma brand_columns_not_riga_excel:
  "map_of BRAND_COLUMN_MAPPINGS brand_name = Some columns_to_match \<Longrightarrow>
     ''riga_excel'' \<notin> set columns_to_match"
  by (auto simp: BRAND_COLUMN_MAPPINGS_def split: if_splits)

lemma spec_valid_row_iff:
  "spec_valid_row riga \<longleftrightarrow> ean_of riga \<noteq> None \<and> ean_of riga \<noteq> Some []"
  by (auto simp: spec_valid_row_def ean_of_def split: option.splits cell.splits)

text \<open>
  C6, as the code has it. In a run that reaches its end, over the sheets of a workbook of
  a known family: let M be the number of rows whose EAN cell is not NaN and that have, at
  the moment they are processed, no matching file. Then \<^verbatim>\<open>ean_non_trovati\<close> has M
  records at the end, the report is written if and only if M is at least 1, the report is
  given exactly these M records, and the k-th record carries under \<^verbatim>\<open>riga_excel\<close>
  the index in its sheet of the k-th such row, plus one.
\<close>

theorem unmatched_accounting:
  assumes "map_of BRAND_COLUMN_MAPPINGS brand_name = Some columns_to_match"
    and "run_ending (rinomina_foto_in_batch pf season brand_name (Some tutti_file) (Some dfs) w)
           = Finished"
  shows "length (ean_non_trovati (run_state
            (rinomina_foto_in_batch pf season brand_name (Some tutti_file) (Some dfs) w)))
           = length (run_unmatched pf season brand_name tutti_file dfs w)
         \<and> (run_report (rinomina_foto_in_batch pf season brand_name (Some tutti_file) (Some dfs) w)
               \<noteq> None
             \<longleftrightarrow> 1 \<le> length (run_unmatched pf season brand_name tutti_file dfs w))
         \<and> (\<forall>rep. run_report (rinomina_foto_in_batch pf season brand_name (Some tutti_file)
                                  (Some dfs) w) = Some rep \<longrightarrow>
                length (report_rows rep)
                  = length (run_unmatched pf season brand_name tutti_file dfs w)
                \<and> map (\<lambda>info. map_of info ''riga_excel'') (report_rows rep)
                  = map (\<lambda>m. Some (PInt (int (fst m) + 1)))
                      (run_unmatched pf season brand_name tutti_file dfs w))
         \<and> map (\<lambda>info. map_of info ''riga_excel'')
               (ean_non_trovati (run_state
                  (rinomina_foto_in_batch pf season brand_name (Some tutti_file) (Some dfs) w)))
             = map (\<lambda>m. Some (PInt (int (fst m) + 1)))
                 (run_unmatched pf season brand_name tutti_file dfs w)"
proof -
  obtain photo_folder excel_file reports_folder where
    paths: "setup_paths season brand_name = (photo_folder, excel_file, reports_folder)"
    by (cases "setup_paths season brand_name")
  let ?st0 = "initial_state (build_index (file_jpg_of tutti_file) []) w"
  let ?R = "rinomina_foto_in_batch pf season brand_name (Some tutti_file) (Some dfs) w"
  let ?MS = "run_unmatched pf season brand_name tutti_file dfs w"
  obtain e conteggio st ts where
    run: "process_sheets pf columns_to_match photo_folder dfs (0, ?st0) = (e, (conteggio, st), ts)"
    by (cases "process_sheets pf columns_to_match photo_folder dfs (0, ?st0)") auto
  let ?mr = "make_report pf (world st) conteggio (ean_non_trovati st) reports_folder
               brand_name columns_to_match"
  have R: "?R =
             (if e = Finished then
                (case ?mr of
                   Inl err \<Rightarrow>
                     \<lparr>run_ending = Raised err, run_conteggio = conteggio, run_state = st,
                      run_trace = ts, run_report = None\<rparr>
                 | Inr written \<Rightarrow>
                     \<lparr>run_ending = Finished, run_conteggio = conteggio, run_state = st,
                      run_trace = ts, run_report = written\<rparr>)
              else \<lparr>run_ending = e, run_conteggio = conteggio, run_state = st,
                    run_trace = ts, run_report = None\<rparr>)"
    using paths assms(1) run by (simp add: rinomina_foto_in_batch_def Let_def)
  from assms(2) R have e: "e = Finished" by (auto split: if_splits)
  from assms(2) R e obtain written where mr: "?mr = Inr written"
    by (cases ?mr) auto
  have MS: "?MS = filter (no_match_at columns_to_match)
                    (sheet_moments pf columns_to_match photo_folder dfs ?st0)"
    using assms(1) paths by (simp add: run_unmatched_def)
  have nt: "ean_non_trovati st = map (info_riga_at pf columns_to_match) ?MS"
    using process_sheets_ean_non_trovati [of pf columns_to_match photo_folder dfs 0 ?st0
                                             conteggio st ts]
          run e MS
    by (simp add: initial_state_def)
  have keys: "map (\<lambda>info. map_of info ''riga_excel'') (ean_non_trovati st)
                = map (\<lambda>m. Some (PInt (int (fst m) + 1))) ?MS"
    using brand_columns_not_riga_excel [OF assms(1)]
    by (simp add: nt riga_excel_at comp_def)
  have len: "length (ean_non_trovati st) = length ?MS" by (simp add: nt)
  have rep: "run_report ?R = written" using R e mr by simp
  have "written = None \<longleftrightarrow> ean_non_trovati st = []"
    using mr by (auto simp: make_report_def Let_def split: if_splits)
  then have "written \<noteq> None \<longleftrightarrow> 0 < length (ean_non_trovati st)"
    by simp
  then have written: "run_report ?R \<noteq> None \<longleftrightarrow> 1 \<le> length ?MS"
    unfolding rep len by linarith
  have rows: "\<forall>r. run_report ?R = Some r \<longrightarrow> report_rows r = ean_non_trovati st"
    using rep mr by (auto simp: make_report_def Let_def split: if_splits)
  have st: "run_state ?R = st" using R e mr by simp
  show ?thesis
    using len written rows keys unfolding st by auto
qed

theorem unmatched_accounting_witness:
  "map_of BRAND_COLUMN_MAPPINGS ''brand'' = Some [''Campo1'', ''Campo2'']
   \<and> run_ending (rinomina_foto_in_batch renames_all ''pe25'' ''brand''
                   (Some [''red-shoe.jpg'', ''red-shoe-2.jpg'']) (Some [Some sheet_mixed]) ())
       = Finished
   \<and> map fst (run_unmatched renames_all ''pe25'' ''brand''
                 [''red-shoe.jpg'', ''red-shoe-2.jpg''] [Some sheet_mixed] ()) = [1, 2]
   \<and> length (ean_non_trovati (run_state (rinomina_foto_in_batch renames_all ''pe25'' ''brand''
                (Some [''red-shoe.jpg'', ''red-shoe-2.jpg'']) (Some [Some sheet_mixed]) ()))) = 2
   \<and> run_report (rinomina_foto_in_batch renames_all ''pe25'' ''brand''
                   (Some [''red-shoe.jpg'', ''red-shoe-2.jpg'']) (Some [Some sheet_mixed]) ())
       \<noteq> None
   \<and> map (\<lambda>info. map_of info ''riga_excel'')
         (ean_non_trovati (run_state (rinomina_foto_in_batch renames_all ''pe25'' ''brand''
            (Some [''red-shoe.jpg'', ''red-shoe-2.jpg'']) (Some [Some sheet_mixed]) ())))
       = [Some (PInt 2), Some (PInt 3)]"
proof -
  have h1: "map_of BRAND_COLUMN_MAPPINGS ''brand'' = Some [''Campo1'', ''Campo2'']"
    by code_simp
  have h2: "run_ending (rinomina_foto_in_batch renames_all ''pe25'' ''brand''
                   (Some [''red-shoe.jpg'', ''red-shoe-2.jpg'']) (Some [Some sheet_mixed]) ())
              = Finished"
    by code_simp
  have ms: "map fst (run_unmatched renames_all ''pe25'' ''brand''
                 [''red-shoe.jpg'', ''red-shoe-2.jpg''] [Some sheet_mixed] ()) = [1, 2]"
    by code_simp
  then have len: "length (run_unmatched renames_all ''pe25'' ''brand''
                 [''red-shoe.jpg'', ''red-shoe-2.jpg''] [Some sheet_mixed] ()) = 2"
    by (metis length_map length_Cons list.size(3) numeral_2_eq_2)
  have idx: "map (\<lambda>m. Some (PInt (int (fst m) + 1)))
               (run_unmatched renames_all ''pe25'' ''brand''
                  [''red-shoe.jpg'', ''red-shoe-2.jpg''] [Some sheet_mixed] ())
             = map (\<lambda>i. Some (PInt (int i + 1))) [1, 2]"
    unfolding ms [symmetric] by (simp add: comp_def)
  show ?thesis
    using h1 h2 ms len idx unmatched_accounting [OF h1 h2] by simp
qed

lemma make_report_raises:
  assumes "non_trovati \<noteq> []"
    and "\<not> report_write pf w
             (reports_folder @ ''/report_ean_non_trovati_'' @ brand_name @ ''_''
                @ strftime_now pf w ''%Y-%m-%d_%H-%M-%S'' @ ''.csv'')"
  shows "make_report pf w conteggio_rinominati non_trovati reports_folder brand_name
           columns_to_match = Inl OSError"
  using assms by (simp add: make_report_def Let_def)

text \<open>
  C6 as the specification words it does not hold: with valid meaning an EAN that is not
  blank after trimming, the sheet below has no valid row and so no unmatched one, yet the
  run appends a record for its row and writes the report.
\<close>

theorem blank_ean_row_is_reported:
  "filter spec_valid_row (df_rows sheet_blank_ean) = []
   \<and> spec_run_unmatched renames_all ''pe25'' ''brand'' [''red-shoe.jpg'']
         [Some sheet_blank_ean] () = []
   \<and> run_ending (rinomina_foto_in_batch renames_all ''pe25'' ''brand''
                   (Some [''red-shoe.jpg'']) (Some [Some sheet_blank_ean]) ()) = Finished
   \<and> length (ean_non_trovati (run_state (rinomina_foto_in_batch renames_all ''pe25'' ''brand''
                (Some [''red-shoe.jpg'']) (Some [Some sheet_blank_ean]) ()))) = 1
   \<and> run_report (rinomina_foto_in_batch renames_all ''pe25'' ''brand''
                   (Some [''red-shoe.jpg'']) (Some [Some sheet_blank_ean]) ()) \<noteq> None"
  by code_simp

section \<open>Failures of os.rename\<close>

lemma process_row_attempts:
  "map att_old (snd (process_row pf columns_to_match photo_folder idx riga (renamed, st))) =
     (if ean_of riga = None then [] else find_files columns_to_match riga st)"
proof (cases "ean_of riga")
  case None
  then show ?thesis by (simp add: process_row_skip)
next
  case (Some ean)
  show ?thesis
  proof (cases "find_files columns_to_match riga st = []")
    case True
    then show ?thesis using Some by (simp add: process_row_unmatched)
  next
    case False
    then show ?thesis using Some by (simp add: process_row_assigned rename_files_old)
  qed
qed

lemma process_row_count:
  "fst (fst (process_row pf columns_to_match photo_folder idx riga (renamed, st))) =
     renamed + length (filter att_ok
                 (snd (process_row pf columns_to_match photo_folder idx riga (renamed, st))))"
proof (cases "ean_of riga")
  case None
  then show ?thesis by (simp add: process_row_skip)
next
  case (Some ean)
  show ?thesis
  proof (cases "find_files columns_to_match riga st = []")
    case True
    then show ?thesis using Some by (simp add: process_row_unmatched)
  next
    case False
    then show ?thesis
      using Some
            rename_loop_count [of pf ean photo_folder 0 "find_files columns_to_match riga st"
                                  "(0, st\<lparr>codesi := codesi st @ [ean]\<rparr>)"]
      by (simp add: process_row_assigned rename_files_def)
  qed
qed

lemma process_rows_attempts:
  "map (map att_old) (snd (process_rows pf columns_to_match photo_folder idx rows (renamed, st))) =
     map (\<lambda>m. case m of (i, riga, s) \<Rightarrow>
                 if ean_of riga = None then [] else find_files columns_to_match riga s)
       (row_moments pf columns_to_match photo_folder idx rows st)"
proof (induction rows arbitrary: idx renamed st)
  case Nil
  then show ?case by simp
next
  case (Cons riga rows)
  obtain r1 st1 t where
    one: "process_row pf columns_to_match photo_folder idx riga (renamed, st) = ((r1, st1), t)"
    by (cases "process_row pf columns_to_match photo_folder idx riga (renamed, st)") auto
  have st1: "st1 = snd (fst (process_row pf columns_to_match photo_folder idx riga (0, st)))"
    using one process_row_state_indep [of pf columns_to_match photo_folder idx riga renamed st]
    by simp
  have t: "map att_old t =
             (if ean_of riga = None then [] else find_files columns_to_match riga st)"
    using process_row_attempts [of pf columns_to_match photo_folder idx riga renamed st] one
    by simp
  obtain r2 st2 ts2 where
    rest: "process_rows pf columns_to_match photo_folder (Suc idx) rows (r1, st1)
             = ((r2, st2), ts2)"
    by (cases "process_rows pf columns_to_match photo_folder (Suc idx) rows (r1, st1)") auto
  have "map (map att_old) ts2 =
          map (\<lambda>m. case m of (i, riga, s) \<Rightarrow>
                      if ean_of riga = None then [] else find_files columns_to_match riga s)
            (row_moments pf columns_to_match photo_folder (Suc idx) rows st1)"
    using Cons.IH [of "Suc idx" r1 st1] rest by simp
  then show ?case
    using one rest t st1 by simp
qed

lemma process_rows_count:
  "fst (fst (process_rows pf columns_to_match photo_folder idx rows (renamed, st))) =
     renamed + length (filter att_ok
                 (concat (snd (process_rows pf columns_to_match photo_folder idx rows
                                 (renamed, st)))))"
proof (induction rows arbitrary: idx renamed st)
  case Nil
  then show ?case by simp
next
  case (Cons riga rows)
  obtain r1 st1 t where
    one: "process_row pf columns_to_match photo_folder idx riga (renamed, st) = ((r1, st1), t)"
    by (cases "process_row pf columns_to_match photo_folder idx riga (renamed, st)") auto
  have r1: "r1 = renamed + length (filter att_ok t)"
    using process_row_count [of pf columns_to_match photo_folder idx riga renamed st] one
    by simp
  obtain r2 st2 ts2 where
    rest: "process_rows pf columns_to_match photo_folder (Suc idx) rows (r1, st1)
             = ((r2, st2), ts2)"
    by (cases "process_rows pf columns_to_match photo_folder (Suc idx) rows (r1, st1)") auto
  have "r2 = r1 + length (filter att_ok (concat ts2))"
    using Cons.IH [of "Suc idx" r1 st1] rest by simp
  then show ?case
    using one rest r1 by simp
qed

lemma process_rows_records_ean:
  "length (codeno (snd (fst (process_rows pf columns_to_match photo_folder idx rows (renamed, st)))))
   + length (codesi (snd (fst (process_rows pf columns_to_match photo_folder idx rows
                                 (renamed, st)))))
   = length (codeno st) + length (codesi st)
     + length (filter (\<lambda>riga. ean_of riga \<noteq> None) rows)"
proof (induction rows arbitrary: idx renamed st)
  case Nil
  then show ?case by simp
next
  case (Cons riga rows)
  obtain r1 st1 t where
    one: "process_row pf columns_to_match photo_folder idx riga (renamed, st) = ((r1, st1), t)"
    by (cases "process_row pf columns_to_match photo_folder idx riga (renamed, st)") auto
  have step: "length (codeno st1) + length (codesi st1) =
                length (codeno st) + length (codesi st)
                  + (if ean_of riga = None then 0 else 1)"
  proof (cases "ean_of riga")
    case None
    then show ?thesis using one by (simp add: process_row_skip)
  next
    case (Some ean)
    then show ?thesis
      using process_row_records_ean
              [OF Some, of pf columns_to_match photo_folder idx "(renamed, st)"] one
      by simp
  qed
  obtain r2 st2 ts2 where
    rest: "process_rows pf columns_to_match photo_folder (Suc idx) rows (r1, st1)
             = ((r2, st2), ts2)"
    by (cases "process_rows pf columns_to_match photo_folder (Suc idx) rows (r1, st1)") auto
  have "length (codeno st2) + length (codesi st2) =
          length (codeno st1) + length (codesi st1)
            + length (filter (\<lambda>riga. ean_of riga \<noteq> None) rows)"
    using Cons.IH [of "Suc idx" r1 st1] rest by simp
  then show ?case
    using one rest step by simp
qed

text \<open>
  C8. \<^verbatim>\<open>rename_files\<close> has no failing outcome. Whatever calls of \<^verbatim>\<open>os.rename\<close>
  raise, it makes one call for every file of the sequence, in order; the count it returns
  is the number of calls that returned; and the names added to \<^verbatim>\<open>file_rinominati\<close>
  are the files of those calls. The loop over the rows goes on after a failure too: for
  every row of the sheet with an EAN, the files matching it at its moment are all
  attempted, in order (and none for a row without an EAN); every row with an EAN is
  recorded once in \<^verbatim>\<open>codeno\<close> or \<^verbatim>\<open>codesi\<close>; and the counter of the sheet grows
  by the number of calls that returned, over all rows.
\<close>

theorem rename_failure_does_not_abort:
  "map att_old (snd (rename_files pf files ean photo_folder st)) = files
   \<and> fst (fst (rename_files pf files ean photo_folder st)) =
       length (filter att_ok (snd (rename_files pf files ean photo_folder st)))
   \<and> file_rinominati (snd (fst (rename_files pf files ean photo_folder st))) =
       file_rinominati st \<union> set (renamed_by (snd (rename_files pf files ean photo_folder st)))
   \<and> map (map att_old)
         (snd (process_rows pf columns_to_match photo_folder idx rows (renamed, st))) =
       map (\<lambda>m. case m of (i, riga, s) \<Rightarrow>
                   if ean_of riga = None then [] else find_files columns_to_match riga s)
         (row_moments pf columns_to_match photo_folder idx rows st)
   \<and> length (codeno (snd (fst (process_rows pf columns_to_match photo_folder idx rows
                                  (renamed, st)))))
       + length (codesi (snd (fst (process_rows pf columns_to_match photo_folder idx rows
                                     (renamed, st)))))
       = length (codeno st) + length (codesi st)
         + length (filter (\<lambda>riga. ean_of riga \<noteq> None) rows)
   \<and> fst (fst (process_rows pf columns_to_match photo_folder idx rows (renamed, st))) =
       renamed + length (filter att_ok
                   (concat (snd (process_rows pf columns_to_match photo_folder idx rows
                                   (renamed, st)))))"
  using rename_loop_old [of pf ean photo_folder 0 files "(0, st)"]
        rename_loop_count [of pf ean photo_folder 0 files "(0, st)"]
        rename_loop_rinominati [of pf ean photo_folder 0 files "(0, st)"]
        process_rows_attempts [of pf columns_to_match photo_folder idx rows renamed st]
        process_rows_records_ean [of pf columns_to_match photo_folder idx rows renamed st]
        process_rows_count [of pf columns_to_match photo_folder idx rows renamed st]
  by (simp add: rename_files_def)

theorem rename_failure_does_not_abort_witness:
  "process_rows (renames_except ''p/red-shoe.jpg'') [''Campo1'', ''Campo2''] ''p/'' 0
     [row_a, row_b] (0, red_shoes) =
   ((1, red_shoes\<lparr>indice_file := [(''red-shoe.jpg'', ''red-shoe.jpg'')],
                  file_rinominati := {''red-shoe-2.jpg''},
                  codesi := [''1111111111111'', ''2222222222222'']\<rparr>),
    [[(''red-shoe.jpg'', ''1111111111111-0.jpg'', False),
      (''red-shoe-2.jpg'', ''1111111111111-1.jpg'', True)],
     [(''red-shoe.jpg'', ''2222222222222-0.jpg'', False)]])
   \<and> map (map att_old)
         (snd (process_rows (renames_except ''p/red-shoe.jpg'') [''Campo1'', ''Campo2''] ''p/'' 0
                 [row_a, row_b] (0, red_shoes))) =
       map (\<lambda>m. case m of (i, riga, s) \<Rightarrow>
                   if ean_of riga = None then []
                   else find_files [''Campo1'', ''Campo2''] riga s)
         (row_moments (renames_except ''p/red-shoe.jpg'') [''Campo1'', ''Campo2''] ''p/'' 0
            [row_a, row_b] red_shoes)
   \<and> fst (fst (process_rows (renames_except ''p/red-shoe.jpg'') [''Campo1'', ''Campo2''] ''p/'' 0
                  [row_a, row_b] (0, red_shoes))) =
       0 + length (filter att_ok
             (concat (snd (process_rows (renames_except ''p/red-shoe.jpg'')
                             [''Campo1'', ''Campo2''] ''p/'' 0 [row_a, row_b] (0, red_shoes)))))"
proof -
  have "process_rows (renames_except ''p/red-shoe.jpg'') [''Campo1'', ''Campo2''] ''p/'' 0
          [row_a, row_b] (0, red_shoes) =
        ((1, red_shoes\<lparr>indice_file := [(''red-shoe.jpg'', ''red-shoe.jpg'')],
                       file_rinominati := {''red-shoe-2.jpg''},
                       codesi := [''1111111111111'', ''2222222222222'']\<rparr>),
         [[(''red-shoe.jpg'', ''1111111111111-0.jpg'', False),
           (''red-shoe-2.jpg'', ''1111111111111-1.jpg'', True)],
          [(''red-shoe.jpg'', ''2222222222222-0.jpg'', False)]])"
    by code_simp
  then show ?thesis
    using rename_failure_does_not_abort
            [of "renames_except ''p/red-shoe.jpg''" "[]" "[]" "''p/''" red_shoes
                "[''Campo1'', ''Campo2'']" 0 "[row_a, row_b]" 0]
    by blast
qed

end
